theory Spec2Isabelle
  imports Complex_Main
begin

section \<open>Values of the rule engine\<close>

text \<open>
  Contexts, condition values and action parameters are dynamically typed Python values.
  They are modelled by the datatype below: \<open>None\<close>, booleans, unbounded integers,
  finite floats, strings, lists and dictionaries with string keys (the list of their
  items, in which a key occurs once). A finite float is the rational number it denotes:
  the engine only compares values, and Python compares numbers of the three numeric
  types by their exact value.
  Infinities and \<open>nan\<close> are outside the model, and so are the values that
  \<open>json.dumps\<close> refuses to print (integers of more than 4300 digits by default,
  nesting beyond the recursion limit).
\<close>

datatype pyval =
    VNone
  | VBool bool
  | VInt int
  | VFloat rat
  | VStr string
  | VList "pyval list"
  | VDict "(string \<times> pyval) list"

text \<open>The exceptions the engine raises or catches.\<close>

datatype error =
    InvalidOperator string    \<comment> \<open>\<open>ValueError("Unknown condition operator: ...")\<close>\<close>
  | UnknownActionType string  \<comment> \<open>\<open>ValueError("Unknown action type: ...")\<close>\<close>
  | TypeError                 \<comment> \<open>raised by a Python built-in on operands of the wrong type\<close>
  | SleepValueError           \<comment> \<open>\<open>time.sleep\<close> on a negative length\<close>
  | KeyError string           \<comment> \<open>subscript of a dictionary on an absent key\<close>
  | HandlerError string       \<comment> \<open>exception raised by a registered service handler\<close>
  | OverflowError             \<comment> \<open>an integer that SQLite cannot store, a length \<open>time.sleep\<close> cannot hold\<close>

type_synonym ctxt = "(string \<times> pyval) list"

text \<open>\<open>d.get(k, default)\<close>: the default only when the key is absent.\<close>

definition dict_get :: "(string \<times> pyval) list \<Rightarrow> string \<Rightarrow> pyval \<Rightarrow> pyval" where
  "dict_get kvs k dflt = (case map_of kvs k of None \<Rightarrow> dflt | Some v \<Rightarrow> v)"

subsection \<open>Comparison operators of Python on these values\<close>

text \<open>
  The value of a number; \<open>bool\<close> is a subclass of \<open>int\<close>: \<open>True\<close> compares as 1,
  \<open>False\<close> as 0.
\<close>

fun num_of :: "pyval \<Rightarrow> rat option" where
  "num_of (VInt i) = Some (of_int i)"
| "num_of (VFloat x) = Some x"
| "num_of (VBool b) = Some (if b then 1 else 0)"
| "num_of _ = None"

text \<open>
  \<open>a == b\<close>. Lists are equal when they have the same length and equal elements;
  dictionaries when they have the same number of keys and every key of the first has an
  equal value in the second. It never raises on these values.
\<close>

fun py_eq :: "pyval \<Rightarrow> pyval \<Rightarrow> bool"
  and py_eq_list :: "pyval list \<Rightarrow> pyval list \<Rightarrow> bool"
  and py_eq_items :: "(string \<times> pyval) list \<Rightarrow> (string \<times> pyval) list \<Rightarrow> bool" where
  "py_eq VNone b = (b = VNone)"
| "py_eq (VBool x) b = (case num_of b of Some y \<Rightarrow> (if x then 1 else 0) = y | None \<Rightarrow> False)"
| "py_eq (VInt x) b = (case num_of b of Some y \<Rightarrow> of_int x = y | None \<Rightarrow> False)"
| "py_eq (VFloat x) b = (case num_of b of Some y \<Rightarrow> x = y | None \<Rightarrow> False)"
| "py_eq (VStr s) b = (case b of VStr t \<Rightarrow> s = t | _ \<Rightarrow> False)"
| "py_eq (VList xs) b = (case b of VList ys \<Rightarrow> py_eq_list xs ys | _ \<Rightarrow> False)"
| "py_eq (VDict kvs) b =
     (case b of VDict kws \<Rightarrow> length kvs = length kws \<and> py_eq_items kvs kws | _ \<Rightarrow> False)"
| "py_eq_list [] ys = (ys = [])"
| "py_eq_list (x # xs) ys = (case ys of [] \<Rightarrow> False | y # ys' \<Rightarrow> py_eq x y \<and> py_eq_list xs ys')"
| "py_eq_items [] kws = True"
| "py_eq_items (kv # kvs) kws =
     ((case map_of kws (fst kv) of None \<Rightarrow> False | Some w \<Rightarrow> py_eq (snd kv) w)
      \<and> py_eq_items kvs kws)"

text \<open>The four ordering operators, passed down through list comparison as CPython does.\<close>

datatype ordop = Lt | Le | Gt | Ge

fun num_ord :: "ordop \<Rightarrow> rat \<Rightarrow> rat \<Rightarrow> bool" where
  "num_ord Lt x y = (x < y)"
| "num_ord Le x y = (x \<le> y)"
| "num_ord Gt x y = (x > y)"
| "num_ord Ge x y = (x \<ge> y)"

text \<open>Strings are ordered lexicographically by code point.\<close>

fun str_lt :: "string \<Rightarrow> string \<Rightarrow> bool" where
  "str_lt [] [] = False"
| "str_lt [] (d # t) = True"
| "str_lt (c # s) [] = False"
| "str_lt (c # s) (d # t) =
     ((of_char c :: nat) < of_char d \<or> (c = d \<and> str_lt s t))"

fun str_ord :: "ordop \<Rightarrow> string \<Rightarrow> string \<Rightarrow> bool" where
  "str_ord Lt s t = str_lt s t"
| "str_ord Le s t = (s = t \<or> str_lt s t)"
| "str_ord Gt s t = str_lt t s"
| "str_ord Ge s t = (s = t \<or> str_lt t s)"

text \<open>
  \<open>a < b\<close>, \<open>a <= b\<close>, \<open>a > b\<close>, \<open>a >= b\<close>: numbers with numbers, strings with
  strings, lists with lists (decided at the first index where the elements differ, by
  the lengths when there is none); every other pairing raises \<open>TypeError\<close>.
\<close>

fun py_ord :: "ordop \<Rightarrow> pyval \<Rightarrow> pyval \<Rightarrow> error + bool"
  and py_ord_list :: "ordop \<Rightarrow> pyval list \<Rightarrow> pyval list \<Rightarrow> error + bool" where
  "py_ord opr (VInt x) b =
     (case num_of b of Some y \<Rightarrow> Inr (num_ord opr (of_int x) y) | None \<Rightarrow> Inl TypeError)"
| "py_ord opr (VFloat x) b =
     (case num_of b of Some y \<Rightarrow> Inr (num_ord opr x y) | None \<Rightarrow> Inl TypeError)"
| "py_ord opr (VBool x) b =
     (case num_of b of Some y \<Rightarrow> Inr (num_ord opr (if x then 1 else 0) y) | None \<Rightarrow> Inl TypeError)"
| "py_ord opr (VStr s) b = (case b of VStr t \<Rightarrow> Inr (str_ord opr s t) | _ \<Rightarrow> Inl TypeError)"
| "py_ord opr (VList xs) b = (case b of VList ys \<Rightarrow> py_ord_list opr xs ys | _ \<Rightarrow> Inl TypeError)"
| "py_ord opr VNone b = Inl TypeError"
| "py_ord opr (VDict kvs) b = Inl TypeError"
| "py_ord_list opr [] ys = Inr (num_ord opr 0 (of_nat (length ys)))"
| "py_ord_list opr (x # xs) [] = Inr (num_ord opr (of_nat (length (x # xs))) 0)"
| "py_ord_list opr (x # xs) (y # ys) =
     (if py_eq x y then py_ord_list opr xs ys else py_ord opr x y)"

text \<open>Substring test of \<open>s in t\<close> on strings.\<close>

fun is_prefix :: "string \<Rightarrow> string \<Rightarrow> bool" where
  "is_prefix [] t = True"
| "is_prefix (c # s) [] = False"
| "is_prefix (c # s) (d # t) = (c = d \<and> is_prefix s t)"

fun is_substring :: "string \<Rightarrow> string \<Rightarrow> bool" where
  "is_substring s [] = (s = [])"
| "is_substring s (d # t) = (is_prefix s (d # t) \<or> is_substring s t)"

text \<open>
  \<open>a in b\<close>: substring of a string (the left operand must be a string), element of a
  list (by \<open>==\<close>), key of a dictionary (the left operand must be hashable); any other
  right operand is not iterable and raises \<open>TypeError\<close>.
\<close>

fun py_in :: "pyval \<Rightarrow> pyval \<Rightarrow> error + bool" where
  "py_in a (VStr t) = (case a of VStr s \<Rightarrow> Inr (is_substring s t) | _ \<Rightarrow> Inl TypeError)"
| "py_in a (VList ys) = Inr (list_ex (\<lambda>y. py_eq y a) ys)"
| "py_in a (VDict kvs) =
     (case a of VList _ \<Rightarrow> Inl TypeError
      | VDict _ \<Rightarrow> Inl TypeError
      | VStr s \<Rightarrow> Inr (s \<in> set (map fst kvs))
      | _ \<Rightarrow> Inr False)"
| "py_in a _ = Inl TypeError"

text \<open>The operator table \<open>_OP_MAP\<close>, and \<open>_OP_MAP.get\<close>.\<close>

definition OP_MAP :: "(string \<times> (pyval \<Rightarrow> pyval \<Rightarrow> error + bool)) list" where
  "OP_MAP =
     [(''=='', \<lambda>a b. Inr (py_eq a b)),
      (''!='', \<lambda>a b. Inr (\<not> py_eq a b)),
      (''>'', py_ord Gt),
      (''>='', py_ord Ge),
      (''<'', py_ord Lt),
      (''<='', py_ord Le),
      (''in'', \<lambda>a b. py_in a b),
      (''contains'', \<lambda>a b. py_in b a)]"

section \<open>Conditions\<close>

record condition =
  c_field :: string
  c_op :: string
  c_value :: pyval
  c_negate :: bool

text \<open>\<open>path.split(".")\<close>: never empty, \<open>"".split(".") = [""]\<close>.\<close>

fun split_dot :: "string \<Rightarrow> string list" where
  "split_dot [] = [[]]"
| "split_dot (c # cs) =
     (if c = CHR ''.'' then [] # split_dot cs
      else (case split_dot cs of [] \<Rightarrow> [[c]] | p # ps \<Rightarrow> (c # p) # ps))"

text \<open>
  The loop of \<open>_resolve_path\<close> over the parts of the path: a value that is not a
  dictionary returns \<open>None\<close> at once, a dictionary is read with \<open>val.get(part)\<close>.
\<close>

fun resolve_parts :: "string list \<Rightarrow> pyval \<Rightarrow> pyval" where
  "resolve_parts [] val = val"
| "resolve_parts (part # parts) val =
     (case val of VDict kvs \<Rightarrow> resolve_parts parts (dict_get kvs part VNone) | _ \<Rightarrow> VNone)"

definition resolve_path :: "string \<Rightarrow> ctxt \<Rightarrow> pyval" where
  "resolve_path path ctx = resolve_parts (split_dot path) (VDict ctx)"

text \<open>\<open>Condition.evaluate\<close>.\<close>

definition evaluate :: "condition \<Rightarrow> ctxt \<Rightarrow> error + bool" where
  "evaluate c ctx =
     (let actual = resolve_path (c_field c) ctx in
      if actual = VNone then Inr (c_negate c)
      else (case map_of OP_MAP (c_op c) of
              None \<Rightarrow> Inl (InvalidOperator (c_op c))
            | Some fn \<Rightarrow>
                (case fn actual (c_value c) of
                   Inl e \<Rightarrow> Inl e
                 | Inr result \<Rightarrow> Inr (if c_negate c then \<not> result else result))))"

section \<open>Rules\<close>

record trigger =
  t_type :: string
  t_config :: "(string \<times> pyval) list"

record action =
  a_type :: string
  a_target :: "string option"
  a_params :: "(string \<times> pyval) list"

record rule =
  r_name :: string
  r_trigger :: trigger
  r_conditions :: "condition list"
  r_actions :: "action list"
  r_enabled :: bool
  r_priority :: int
  r_description :: string
  r_created_at :: string
  r_last_triggered :: "string option"
  r_trigger_count :: int

subsection \<open>Rule-level evaluation\<close>

text \<open>
  A failure description keeps the values the source formats into its text:
  \<open>CondFailed field op value\<close> for \<open>f"{cond.field} {cond.op} {cond.value}"\<close> and
  \<open>CondError e\<close> for \<open>f"error: {e}"\<close>.
\<close>

datatype failure = CondFailed string string pyval | CondError error

text \<open>
  The loop of \<open>evaluate_rule\<close> with its accumulator \<open>failed\<close>; the \<open>try\<close> block
  turns an exception of \<open>cond.evaluate\<close> into a description.
\<close>

fun eval_conditions :: "condition list \<Rightarrow> ctxt \<Rightarrow> failure list \<Rightarrow> failure list" where
  "eval_conditions [] ctx failed = failed"
| "eval_conditions (cond # conds) ctx failed =
     eval_conditions conds ctx
       (case evaluate cond ctx of
          Inr passed \<Rightarrow>
            (if \<not> passed
             then failed @ [CondFailed (c_field cond) (c_op cond) (c_value cond)]
             else failed)
        | Inl e \<Rightarrow> failed @ [CondError e])"

definition evaluate_rule :: "rule \<Rightarrow> ctxt \<Rightarrow> bool \<times> failure list" where
  "evaluate_rule rule ctx =
     (let failed = eval_conditions (r_conditions rule) ctx []
      in (length failed = 0, failed))"

text \<open>
  The wording of the specification for the path resolver, as predicates on the parts of
  a path: the walk is \<^emph>\<open>missing\<close> when at some step the current value is not a
  mapping or the key is absent, and it \<^emph>\<open>ends in null\<close> when every key is found and
  the value stored at the end of the path is \<open>None\<close>.
\<close>

fun path_missing :: "string list \<Rightarrow> pyval \<Rightarrow> bool" where
  "path_missing [] val = False"
| "path_missing (part # parts) val =
     (case val of
        VDict kvs \<Rightarrow> (case map_of kvs part of None \<Rightarrow> True | Some v \<Rightarrow> path_missing parts v)
      | _ \<Rightarrow> True)"

fun path_stored :: "string list \<Rightarrow> pyval \<Rightarrow> pyval option" where
  "path_stored [] val = Some val"
| "path_stored (part # parts) val =
     (case val of
        VDict kvs \<Rightarrow> (case map_of kvs part of None \<Rightarrow> None | Some v \<Rightarrow> path_stored parts v)
      | _ \<Rightarrow> None)"

text \<open>The description one condition contributes to the failure list, if any.\<close>

definition failure_of :: "condition \<Rightarrow> ctxt \<Rightarrow> failure list" where
  "failure_of cond ctx =
     (case evaluate cond ctx of
        Inr passed \<Rightarrow> (if passed then [] else [CondFailed (c_field cond) (c_op cond) (c_value cond)])
      | Inl e \<Rightarrow> [CondError e])"

section \<open>Rule documents\<close>

text \<open>
  A rule document is the parsed JSON object given to \<open>Rule.from_dict\<close>, read through
  the annotations of the dataclasses: every field is absent (\<open>None\<close>) or present with
  a value of the annotated type. The nested objects are passed as keyword arguments
  (\<open>Trigger(**d)\<close>), so they also record the keys that name no field of their
  dataclass. For \<open>target\<close> and \<open>last_triggered\<close>, whose type is optional, an absent
  key and a \<open>null\<close> are both \<open>None\<close>.
\<close>

record trigger_doc =
  td_type :: "string option"
  td_config :: "(string \<times> pyval) list option"
  td_other_keys :: "string list"

record condition_doc =
  cd_field :: "string option"
  cd_op :: "string option"
  cd_value :: "pyval option"
  cd_negate :: "bool option"
  cd_other_keys :: "string list"

record action_doc =
  ad_type :: "string option"
  ad_target :: "string option"
  ad_params :: "(string \<times> pyval) list option"
  ad_other_keys :: "string list"

record rule_doc =
  d_name :: "string option"
  d_trigger :: "trigger_doc option"
  d_conditions :: "condition_doc list option"
  d_actions :: "action_doc list option"
  d_enabled :: "bool option"
  d_priority :: "int option"
  d_description :: "string option"
  d_created_at :: "string option"
  d_last_triggered :: "string option"
  d_trigger_count :: "int option"

text \<open>
  The dataclass constructors called with keyword arguments: an unexpected keyword or a
  missing required field raises \<open>TypeError\<close>; a missing optional field takes its
  default.
\<close>

definition mk_trigger :: "trigger_doc \<Rightarrow> error + trigger" where
  "mk_trigger td =
     (if td_other_keys td \<noteq> [] then Inl TypeError
      else (case td_type td of
              None \<Rightarrow> Inl TypeError
            | Some t \<Rightarrow>
                Inr \<lparr>t_type = t, t_config = (case td_config td of None \<Rightarrow> [] | Some c \<Rightarrow> c)\<rparr>))"

definition mk_condition :: "condition_doc \<Rightarrow> error + condition" where
  "mk_condition cd =
     (if cd_other_keys cd \<noteq> [] then Inl TypeError
      else (case (cd_field cd, cd_op cd, cd_value cd) of
              (Some f, Some opr, Some v) \<Rightarrow>
                Inr \<lparr>c_field = f, c_op = opr, c_value = v,
                     c_negate = (case cd_negate cd of None \<Rightarrow> False | Some b \<Rightarrow> b)\<rparr>
            | _ \<Rightarrow> Inl TypeError))"

definition mk_action :: "action_doc \<Rightarrow> error + action" where
  "mk_action ad =
     (if ad_other_keys ad \<noteq> [] then Inl TypeError
      else (case ad_type ad of
              None \<Rightarrow> Inl TypeError
            | Some t \<Rightarrow>
                Inr \<lparr>a_type = t, a_target = ad_target ad,
                     a_params = (case ad_params ad of None \<Rightarrow> [] | Some ps \<Rightarrow> ps)\<rparr>))"

text \<open>A list comprehension over a constructor that may raise stops at the first error.\<close>

fun mk_all :: "('a \<Rightarrow> error + 'b) \<Rightarrow> 'a list \<Rightarrow> error + 'b list" where
  "mk_all mk [] = Inr []"
| "mk_all mk (x # xs) =
     (case mk x of
        Inl e \<Rightarrow> Inl e
      | Inr y \<Rightarrow> (case mk_all mk xs of Inl e \<Rightarrow> Inl e | Inr ys \<Rightarrow> Inr (y # ys)))"

text \<open>
  \<open>Rule.from_dict\<close>, in the order the source evaluates: \<open>d["trigger"]\<close>, the
  conditions, the actions, then \<open>d["name"]\<close> and the optional fields. The argument
  \<open>now\<close> is the value of \<open>datetime.utcnow().isoformat()\<close>, the default of
  \<open>created_at\<close>.
\<close>

definition from_dict :: "rule_doc \<Rightarrow> string \<Rightarrow> error + rule" where
  "from_dict d now =
     (case d_trigger d of
        None \<Rightarrow> Inl (KeyError ''trigger'')
      | Some td \<Rightarrow>
     (case mk_trigger td of
        Inl e \<Rightarrow> Inl e
      | Inr trg \<Rightarrow>
     (case mk_all mk_condition (case d_conditions d of None \<Rightarrow> [] | Some cs \<Rightarrow> cs) of
        Inl e \<Rightarrow> Inl e
      | Inr conds \<Rightarrow>
     (case mk_all mk_action (case d_actions d of None \<Rightarrow> [] | Some as \<Rightarrow> as) of
        Inl e \<Rightarrow> Inl e
      | Inr acts \<Rightarrow>
     (case d_name d of
        None \<Rightarrow> Inl (KeyError ''name'')
      | Some n \<Rightarrow>
          Inr \<lparr>r_name = n, r_trigger = trg, r_conditions = conds, r_actions = acts,
               r_enabled = (case d_enabled d of None \<Rightarrow> True | Some b \<Rightarrow> b),
               r_priority = (case d_priority d of None \<Rightarrow> 0 | Some p \<Rightarrow> p),
               r_description = (case d_description d of None \<Rightarrow> [] | Some t \<Rightarrow> t),
               r_created_at = (case d_created_at d of None \<Rightarrow> now | Some t \<Rightarrow> t),
               r_last_triggered = d_last_triggered d,
               r_trigger_count = (case d_trigger_count d of None \<Rightarrow> 0 | Some k \<Rightarrow> k)\<rparr>)))))"

text \<open>\<open>Rule.to_dict\<close> (\<open>dataclasses.asdict\<close>): every field is present.\<close>

definition trigger_to_dict :: "trigger \<Rightarrow> trigger_doc" where
  "trigger_to_dict t = \<lparr>td_type = Some (t_type t), td_config = Some (t_config t), td_other_keys = []\<rparr>"

definition condition_to_dict :: "condition \<Rightarrow> condition_doc" where
  "condition_to_dict c =
     \<lparr>cd_field = Some (c_field c), cd_op = Some (c_op c), cd_value = Some (c_value c),
      cd_negate = Some (c_negate c), cd_other_keys = []\<rparr>"

definition action_to_dict :: "action \<Rightarrow> action_doc" where
  "action_to_dict a =
     \<lparr>ad_type = Some (a_type a), ad_target = a_target a, ad_params = Some (a_params a),
      ad_other_keys = []\<rparr>"

definition to_dict :: "rule \<Rightarrow> rule_doc" where
  "to_dict r =
     \<lparr>d_name = Some (r_name r), d_trigger = Some (trigger_to_dict (r_trigger r)),
      d_conditions = Some (map condition_to_dict (r_conditions r)),
      d_actions = Some (map action_to_dict (r_actions r)),
      d_enabled = Some (r_enabled r), d_priority = Some (r_priority r),
      d_description = Some (r_description r), d_created_at = Some (r_created_at r),
      d_last_triggered = r_last_triggered r, d_trigger_count = Some (r_trigger_count r)\<rparr>"

section \<open>The hub: tables, handler registry, collaborators\<close>

text \<open>
  The three tables of the database are lists of rows in insertion order. The column
  \<open>definition\<close> of a rule row holds the JSON text of \<open>rule.to_dict()\<close>; reading it
  back with \<open>Rule.from_dict\<close> gives the rule again (lemma \<open>from_dict_to_dict\<close>), so
  the row keeps the rule itself.

  An integer column holds a signed 64-bit integer: binding a Python integer outside that
  range raises \<open>OverflowError\<close>. SQLite evaluates \<open>trigger_count+1\<close> on the largest
  integer, \<open>2 ^ 63 - 1\<close>, in floating point: the column then holds the real number
  \<open>2 ^ 63\<close>, which no integer column value equals, and adding one to that real number
  in floating point gives the same real number again. A column value from \<open>2 ^ 63\<close>
  on stands for that real number.
\<close>

definition in_int64 :: "int \<Rightarrow> bool" where
  "in_int64 i \<longleftrightarrow> - (2 ^ 63) \<le> i \<and> i < 2 ^ 63"

definition sql_add_one :: "int \<Rightarrow> int" where
  "sql_add_one v = (if v < 2 ^ 63 then v + 1 else v)"

record rule_row =
  row_name :: string
  row_definition :: rule
  row_enabled :: bool
  row_priority :: int
  row_created_at :: string
  row_last_triggered :: "string option"
  row_trigger_count :: int

record execution =
  ex_rule_name :: string
  ex_triggered_by :: string
  ex_context :: ctxt
  ex_result :: string
  ex_error :: "error option"
  ex_ts :: string
  ex_duration_ms :: int

text \<open>The formatted message of a log row, kept as the values formatted into it.\<close>

datatype log_message =
    RuleAdded string   \<comment> \<open>\<open>f"Rule added: {rule.name}"\<close>\<close>
  | RuleAction pyval   \<comment> \<open>\<open>f"[rule_action] {msg}"\<close>\<close>

record log_row =
  log_level :: string
  log_msg :: log_message
  log_context :: ctxt
  log_ts :: string

text \<open>
  What the engine sends to its collaborators outside the database: the lines given to
  the process logger, the calls of registered handlers and \<open>time.sleep\<close>.
\<close>

datatype event =
    DbInitialised                    \<comment> \<open>\<open>logger.info("automation_hub DB initialised at %s", db_path)\<close>\<close>
  | Notify pyval pyval               \<comment> \<open>\<open>logger.info("NOTIFY[%s]: %s", channel, message)\<close>\<close>
  | SetState "string option" pyval   \<comment> \<open>\<open>logger.info("SET_STATE %s -> %s", entity_id, new_state)\<close>\<close>
  | NoHandler "string option"        \<comment> \<open>\<open>logger.warning("No handler for service: %s", service)\<close>\<close>
  | HandlerCall string "(string \<times> pyval) list"  \<comment> \<open>\<open>handler(service, action.params)\<close>\<close>
  | Sleep pyval                      \<comment> \<open>\<open>time.sleep(secs)\<close>\<close>
  | RunScene pyval                   \<comment> \<open>\<open>logger.info("RUN_SCENE: %s", scene)\<close>\<close>
  | ActionError string error         \<comment> \<open>\<open>logger.error("Rule %s action error: %s", rule.name, e)\<close>\<close>

text \<open>
  A registered handler is a function of the service name and the parameters; it returns
  a value or raises.
\<close>

type_synonym handler = "string \<Rightarrow> (string \<times> pyval) list \<Rightarrow> error + pyval"

text \<open>
  The state of an \<open>AutomationHub\<close>. The wall clock is an input: \<open>clock s i\<close> is the
  value of the \<open>i\<close>-th call of \<open>datetime.utcnow()\<close> (in microseconds), \<open>ticks\<close>
  counts the calls made so far and \<open>isoformat\<close> renders an instant as text.
  \<open>sleep_overflows\<close> is the platform's answer to whether a number of seconds is
  outside the range of the C time type that \<open>time.sleep\<close> converts it to.
\<close>

record hub =
  tbl_rules :: "rule_row list"
  tbl_executions :: "execution list"
  tbl_logs :: "log_row list"
  service_handlers :: "string \<Rightarrow> handler option"
  emitted :: "event list"
  clock :: "nat \<Rightarrow> int"
  isoformat :: "int \<Rightarrow> string"
  sleep_overflows :: "rat \<Rightarrow> bool"
  ticks :: nat

definition utcnow :: "hub \<Rightarrow> int \<times> hub" where
  "utcnow s = (clock s (ticks s), s\<lparr>ticks := Suc (ticks s)\<rparr>)"

definition emit :: "event \<Rightarrow> hub \<Rightarrow> hub" where
  "emit e s = s\<lparr>emitted := emitted s @ [e]\<rparr>"

text \<open>
  \<open>AutomationHub.__init__\<close> on a new database: empty tables and an empty handler
  registry.
\<close>

definition init_hub :: "(nat \<Rightarrow> int) \<Rightarrow> (int \<Rightarrow> string) \<Rightarrow> (rat \<Rightarrow> bool) \<Rightarrow> hub" where
  "init_hub clk render overflows =
     \<lparr>tbl_rules = [], tbl_executions = [], tbl_logs = [],
      service_handlers = (\<lambda>n. None), emitted = [DbInitialised],
      clock = clk, isoformat = render, sleep_overflows = overflows, ticks = 0\<rparr>"

text \<open>\<open>AutomationHub._log\<close>.\<close>

definition hub_log :: "string \<Rightarrow> log_message \<Rightarrow> ctxt \<Rightarrow> hub \<Rightarrow> hub" where
  "hub_log level message ctx s =
     (let (now, s1) = utcnow s
      in s1\<lparr>tbl_logs := tbl_logs s1 @
            [\<lparr>log_level = level, log_msg = message, log_context = ctx,
              log_ts = isoformat s1 now\<rparr>]\<rparr>)"

subsection \<open>Rule management\<close>

text \<open>
  \<open>add_rule\<close>: \<open>INSERT OR REPLACE\<close> on the primary key \<open>name\<close> deletes the row of
  that name, if any, and inserts the new row. The statement raises when the priority or
  the trigger count does not fit an integer column: nothing is stored and nothing is
  logged.
\<close>

definition add_rule :: "rule \<Rightarrow> hub \<Rightarrow> (error + rule) \<times> hub" where
  "add_rule rule s =
     (if \<not> (in_int64 (r_priority rule) \<and> in_int64 (r_trigger_count rule)) then
        (Inl OverflowError, s)
      else
        (let row = \<lparr>row_name = r_name rule, row_definition = rule,
                    row_enabled = r_enabled rule, row_priority = r_priority rule,
                    row_created_at = r_created_at rule,
                    row_last_triggered = r_last_triggered rule,
                    row_trigger_count = r_trigger_count rule\<rparr>;
             s1 = s\<lparr>tbl_rules := filter (\<lambda>r. row_name r \<noteq> r_name rule) (tbl_rules s) @ [row]\<rparr>
         in (Inr rule, hub_log ''INFO'' (RuleAdded (r_name rule)) [] s1)))"

text \<open>
  \<open>add_rule_from_json\<close> on the parsed document. \<open>from_dict\<close> reads the clock after
  its last point of failure, so an import that fails in \<open>from_dict\<close> has read nothing.
\<close>

definition add_rule_from_json :: "rule_doc \<Rightarrow> hub \<Rightarrow> (error + rule) \<times> hub" where
  "add_rule_from_json d s =
     (let (now, s1) = utcnow s
      in (case from_dict d (isoformat s now) of
            Inl e \<Rightarrow> (Inl e, s)
          | Inr rule \<Rightarrow> add_rule rule s1))"

text \<open>
  \<open>Rule.from_dict(json.loads(row["definition"]))\<close>: the document is the \<open>to_dict\<close> of
  the stored rule, so \<open>from_dict\<close> gives that rule back (lemma
  \<open>read_definition_from_dict\<close>), after reading the clock once for a default of
  \<open>created_at\<close> that it does not use.
\<close>

definition read_definition :: "rule_row \<Rightarrow> hub \<Rightarrow> rule \<times> hub" where
  "read_definition row s = (let (now, s1) = utcnow s in (row_definition row, s1))"

definition get_rule :: "string \<Rightarrow> hub \<Rightarrow> rule option \<times> hub" where
  "get_rule n s =
     (case find (\<lambda>r. row_name r = n) (tbl_rules s) of
        None \<Rightarrow> (None, s)
      | Some row \<Rightarrow>
          (let (r, s1) = read_definition row s
           in (Some (r\<lparr>r_enabled := row_enabled row,
                       r_last_triggered := row_last_triggered row,
                       r_trigger_count := row_trigger_count row\<rparr>), s1)))"

definition enable_rule :: "string \<Rightarrow> hub \<Rightarrow> hub" where
  "enable_rule n s =
     s\<lparr>tbl_rules := map (\<lambda>r. if row_name r = n then r\<lparr>row_enabled := True\<rparr> else r) (tbl_rules s)\<rparr>"

definition disable_rule :: "string \<Rightarrow> hub \<Rightarrow> hub" where
  "disable_rule n s =
     s\<lparr>tbl_rules := map (\<lambda>r. if row_name r = n then r\<lparr>row_enabled := False\<rparr> else r) (tbl_rules s)\<rparr>"

definition delete_rule :: "string \<Rightarrow> hub \<Rightarrow> hub" where
  "delete_rule n s = s\<lparr>tbl_rules := filter (\<lambda>r. row_name r \<noteq> n) (tbl_rules s)\<rparr>"

text \<open>
  \<open>get_active_rules\<close>: the enabled rows by descending priority, each read back with
  \<open>Rule.from_dict\<close>. Rows of equal priority stay in insertion order (SQL leaves their
  order open).
\<close>

definition active_rows :: "hub \<Rightarrow> rule_row list" where
  "active_rows s = sort_key (\<lambda>row. - row_priority row) (filter row_enabled (tbl_rules s))"

fun load_rules :: "rule_row list \<Rightarrow> rule list \<Rightarrow> hub \<Rightarrow> rule list \<times> hub" where
  "load_rules [] result s = (result, s)"
| "load_rules (row # rows) result s =
     (let (r, s1) = read_definition row s
      in load_rules rows
           (result @ [r\<lparr>r_enabled := True,
                        r_last_triggered := row_last_triggered row,
                        r_trigger_count := row_trigger_count row\<rparr>]) s1)"

definition get_active_rules :: "hub \<Rightarrow> rule list \<times> hub" where
  "get_active_rules s = load_rules (active_rows s) [] s"

definition list_rules :: "hub \<Rightarrow> (string \<times> bool \<times> int \<times> string option \<times> int) list" where
  "list_rules s =
     map (\<lambda>row. (row_name row, row_enabled row, row_priority row,
                 row_last_triggered row, row_trigger_count row))
       (sort_key (\<lambda>row. - row_priority row) (tbl_rules s))"

definition register_service :: "string \<Rightarrow> handler \<Rightarrow> hub \<Rightarrow> hub" where
  "register_service n h s = s\<lparr>service_handlers := (service_handlers s)(n \<mapsto> h)\<rparr>"

section \<open>Action execution\<close>

definition opt_str :: "string option \<Rightarrow> pyval" where
  "opt_str t = (case t of None \<Rightarrow> VNone | Some x \<Rightarrow> VStr x)"

text \<open>
  \<open>execute_action\<close>: the result or the exception raised, and the state after it. The
  tags are tested in the order of the source. \<open>time.sleep\<close> raises \<open>TypeError\<close> on
  a length that is not a number, \<open>OverflowError\<close> on one outside the range of the C
  time type, and then \<open>ValueError\<close> on a negative one.
\<close>

definition execute_action :: "action \<Rightarrow> ctxt \<Rightarrow> hub \<Rightarrow> (error + pyval) \<times> hub" where
  "execute_action act ctx s =
     (let atype = a_type act in
      if atype = ''log_message'' then
        (let msg = dict_get (a_params act) ''message'' (VStr [])
         in (Inr (VDict [(''logged'', msg)]), hub_log ''INFO'' (RuleAction msg) ctx s))
      else if atype = ''send_notify'' then
        (let channel = dict_get (a_params act) ''channel'' (VStr ''default'');
             message = dict_get (a_params act) ''message'' (VStr [])
         in (Inr (VDict [(''channel'', channel), (''message'', message)]),
             emit (Notify channel message) s))
      else if atype = ''set_state'' then
        (let entity_id = a_target act;
             new_state = dict_get (a_params act) ''state'' VNone
         in (Inr (VDict [(''entity_id'', opt_str entity_id), (''state'', new_state)]),
             emit (SetState entity_id new_state) s))
      else if atype = ''call_service'' then
        (let service = a_target act;
             no_handler =
               (Inr (VDict [(''service'', opt_str service), (''status'', VStr ''no_handler'')]),
                emit (NoHandler service) s)
         in (case service of
               None \<Rightarrow> no_handler
             | Some n \<Rightarrow>
                 (case service_handlers s n of
                    Some handler \<Rightarrow> (handler n (a_params act), emit (HandlerCall n (a_params act)) s)
                  | None \<Rightarrow> no_handler)))
      else if atype = ''delay'' then
        (let secs = dict_get (a_params act) ''seconds'' (VInt 1)
         in (case num_of secs of
               None \<Rightarrow> (Inl TypeError, s)
             | Some n \<Rightarrow>
                 if sleep_overflows s n then (Inl OverflowError, s)
                 else if n < 0 then (Inl SleepValueError, s)
                 else (Inr (VDict [(''delayed'', secs)]), emit (Sleep secs) s)))
      else if atype = ''run_scene'' then
        (let scene = dict_get (a_params act) ''scene_name'' VNone
         in (Inr (VDict [(''scene'', scene)]), emit (RunScene scene) s))
      else (Inl (UnknownActionType atype), s))"

section \<open>The rule engine\<close>

text \<open>
  An entry of the list returned by \<open>run_rule_engine\<close> is a dictionary literal: the
  keys of the source, in its order, with their values.
\<close>

datatype rval =
    RStr string
  | RFailed "failure list"
  | RActions "pyval list"
  | RDuration int

type_synonym result_entry = "(string \<times> rval) list"

text \<open>
  The action loop inside the \<open>try\<close> block: the first exception leaves the loop with
  the results appended so far.
\<close>

fun run_actions ::
  "action list \<Rightarrow> ctxt \<Rightarrow> hub \<Rightarrow> pyval list \<Rightarrow> error option \<times> pyval list \<times> hub" where
  "run_actions [] ctx s action_results = (None, action_results, s)"
| "run_actions (act # acts) ctx s action_results =
     (case execute_action act ctx s of
        (Inl e, s1) \<Rightarrow> (Some e, action_results, s1)
      | (Inr res, s1) \<Rightarrow> run_actions acts ctx s1 (action_results @ [res]))"

text \<open>\<open>_record_execution\<close> and \<open>_increment_trigger\<close>.\<close>

definition record_execution ::
  "string \<Rightarrow> string \<Rightarrow> ctxt \<Rightarrow> string \<Rightarrow> error option \<Rightarrow> int \<Rightarrow> hub \<Rightarrow> hub" where
  "record_execution rule_name triggered_by ctx result err duration_ms s =
     (let (ts, s1) = utcnow s;
          safe_context = filter (\<lambda>kv. fst kv \<noteq> ''credentials'') ctx
      in s1\<lparr>tbl_executions := tbl_executions s1 @
            [\<lparr>ex_rule_name = rule_name, ex_triggered_by = triggered_by,
              ex_context = safe_context, ex_result = result, ex_error = err,
              ex_ts = isoformat s1 ts, ex_duration_ms = duration_ms\<rparr>]\<rparr>)"

definition increment_trigger :: "string \<Rightarrow> hub \<Rightarrow> hub" where
  "increment_trigger rule_name s =
     (let (now, s1) = utcnow s
      in s1\<lparr>tbl_rules :=
            map (\<lambda>r. if row_name r = rule_name
                     then r\<lparr>row_trigger_count := sql_add_one (row_trigger_count r),
                            row_last_triggered := Some (isoformat s1 now)\<rparr>
                     else r)
              (tbl_rules s1)\<rparr>)"

text \<open>
  \<open>trigger_type or "manual"\<close>: \<open>None\<close> and the empty string are false.
\<close>

definition trigger_label :: "string option \<Rightarrow> string" where
  "trigger_label t = (case t of None \<Rightarrow> ''manual'' | Some x \<Rightarrow> if x = [] then ''manual'' else x)"

text \<open>
  The body of the loop over the selected rules in \<open>run_rule_engine\<close>. The duration
  is the difference of the two clock readings; the source scales it to milliseconds and
  rounds the one it returns to two decimals, in floating point, which is left out.
\<close>

definition process_rule ::
  "string option \<Rightarrow> ctxt \<Rightarrow> rule \<Rightarrow> result_entry list \<Rightarrow> hub \<Rightarrow> result_entry list \<times> hub" where
  "process_rule trigger_type ctx rule results s =
     (let (start, s1) = utcnow s;
          (ok, failed) = evaluate_rule rule ctx
      in if \<not> ok then
           (results @ [[(''rule'', RStr (r_name rule)), (''status'', RStr ''skipped''),
                        (''failed_conditions'', RFailed failed)]], s1)
         else
           (let (error_msg, action_results, s2) = run_actions (r_actions rule) ctx s1 [];
                status = (if error_msg = None then ''ok'' else ''error'');
                s3 = (case error_msg of
                        None \<Rightarrow> s2
                      | Some e \<Rightarrow> emit (ActionError (r_name rule) e) s2);
                (finish, s4) = utcnow s3;
                duration_ms = finish - start;
                s5 = record_execution (r_name rule) (trigger_label trigger_type) ctx
                       status error_msg duration_ms s4;
                s6 = increment_trigger (r_name rule) s5
            in (results @ [[(''rule'', RStr (r_name rule)), (''status'', RStr status),
                            (''actions'', RActions action_results),
                            (''duration_ms'', RDuration duration_ms)]], s6)))"

fun run_rules ::
  "string option \<Rightarrow> ctxt \<Rightarrow> rule list \<Rightarrow> result_entry list \<Rightarrow> hub \<Rightarrow> result_entry list \<times> hub" where
  "run_rules trigger_type ctx [] results s = (results, s)"
| "run_rules trigger_type ctx (rule # rules) results s =
     (case process_rule trigger_type ctx rule results s of
        (results1, s1) \<Rightarrow> run_rules trigger_type ctx rules results1 s1)"

text \<open>
  \<open>if trigger_type: rules = [r for r in rules if r.trigger.type == trigger_type]\<close>:
  \<open>None\<close> and the empty string keep every rule.
\<close>

definition by_trigger_type :: "string option \<Rightarrow> rule list \<Rightarrow> rule list" where
  "by_trigger_type trigger_type rules =
     (case trigger_type of
        None \<Rightarrow> rules
      | Some t \<Rightarrow> if t = [] then rules else filter (\<lambda>r. t_type (r_trigger r) = t) rules)"

definition run_rule_engine :: "ctxt \<Rightarrow> string option \<Rightarrow> hub \<Rightarrow> result_entry list \<times> hub" where
  "run_rule_engine ctx trigger_type s =
     (let (rules, s1) = get_active_rules s
      in run_rules trigger_type ctx (by_trigger_type trigger_type rules) [] s1)"

text \<open>
  The rules a pass selects, and the rule that \<open>get_rule\<close> and \<open>get_active_rules\<close>
  make of a row: the stored definition with the three mutable columns.
\<close>

definition selected_rules :: "string option \<Rightarrow> hub \<Rightarrow> rule list" where
  "selected_rules trigger_type s = by_trigger_type trigger_type (fst (get_active_rules s))"

definition rule_of_row :: "rule_row \<Rightarrow> rule" where
  "rule_of_row row =
     (row_definition row)
       \<lparr>r_enabled := row_enabled row,
        r_last_triggered := row_last_triggered row,
        r_trigger_count := row_trigger_count row\<rparr>"

text \<open>The two entry points that build a context.\<close>

definition fire_event ::
  "string \<Rightarrow> (string \<times> pyval) list option \<Rightarrow> hub \<Rightarrow> result_entry list \<times> hub" where
  "fire_event event_name event_data s =
     (let data = (case event_data of None \<Rightarrow> [] | Some d \<Rightarrow> d);
          (now, s1) = utcnow s;
          ctx = [(''event'', VDict [(''name'', VStr event_name), (''data'', VDict data)]),
                 (''ts'', VStr (isoformat s1 now))]
      in run_rule_engine ctx (Some ''event'') s1)"

definition process_sensor_update ::
  "string \<Rightarrow> rat \<Rightarrow> string \<Rightarrow> hub \<Rightarrow> result_entry list \<times> hub" where
  "process_sensor_update sensor_id v unit s =
     (let (now, s1) = utcnow s;
          ctx = [(''sensor'', VDict [(sensor_id, VDict [(''value'', VFloat v), (''unit'', VStr unit)])]),
                 (''event'', VDict [(''name'', VStr ''sensor_update''),
                                   (''sensor_id'', VStr sensor_id), (''value'', VFloat v)]),
                 (''ts'', VStr (isoformat s1 now))]
      in run_rule_engine ctx (Some ''sensor'') s1)"

text \<open>
  What \<open>execute_action\<close> returns or raises, as a function of the handler registry
  and of the range of \<open>time.sleep\<close> alone (lemma \<open>execute_action_outcome\<close>).
\<close>

definition action_outcome ::
  "(string \<Rightarrow> handler option) \<Rightarrow> (rat \<Rightarrow> bool) \<Rightarrow> action \<Rightarrow> error + pyval" where
  "action_outcome handlers overflows act =
     (let atype = a_type act in
      if atype = ''log_message'' then
        Inr (VDict [(''logged'', dict_get (a_params act) ''message'' (VStr []))])
      else if atype = ''send_notify'' then
        Inr (VDict [(''channel'', dict_get (a_params act) ''channel'' (VStr ''default'')),
                    (''message'', dict_get (a_params act) ''message'' (VStr []))])
      else if atype = ''set_state'' then
        Inr (VDict [(''entity_id'', opt_str (a_target act)),
                    (''state'', dict_get (a_params act) ''state'' VNone)])
      else if atype = ''call_service'' then
        (case a_target act of
           None \<Rightarrow> Inr (VDict [(''service'', VNone), (''status'', VStr ''no_handler'')])
         | Some n \<Rightarrow>
             (case handlers n of
                Some handler \<Rightarrow> handler n (a_params act)
              | None \<Rightarrow> Inr (VDict [(''service'', VStr n), (''status'', VStr ''no_handler'')])))
      else if atype = ''delay'' then
        (case num_of (dict_get (a_params act) ''seconds'' (VInt 1)) of
           None \<Rightarrow> Inl TypeError
         | Some n \<Rightarrow>
             if overflows n then Inl OverflowError
             else if n < 0 then Inl SleepValueError
             else Inr (VDict [(''delayed'', dict_get (a_params act) ''seconds'' (VInt 1))]))
      else if atype = ''run_scene'' then
        Inr (VDict [(''scene'', dict_get (a_params act) ''scene_name'' VNone)])
      else Inl (UnknownActionType atype))"

section \<open>Well-formed stores and example data\<close>

text \<open>
  What the schema and \<open>add_rule\<close> guarantee of the rule table: \<open>name\<close> is the
  primary key, and the stored definition of a row carries the name of the row.
\<close>

definition wf_hub :: "hub \<Rightarrow> bool" where
  "wf_hub s \<longleftrightarrow>
     distinct (map row_name (tbl_rules s))
     \<and> list_all (\<lambda>row. r_name (row_definition row) = row_name row) (tbl_rules s)"

text \<open>
  The fixture of the test-suite: the rule \<open>temp_alert\<close> on a new hub, and the context
  of a reading of sensor \<open>t1\<close>. The clock of the examples advances by a millisecond
  per call; \<open>demo_iso\<close> stands for the rendering of an instant, and
  \<open>demo_sleep_range\<close> refuses the lengths that do not fit 64 bits of nanoseconds.
\<close>

definition demo_clock :: "nat \<Rightarrow> int" where
  "demo_clock i = 1000 * int i"

definition demo_iso :: "int \<Rightarrow> string" where
  "demo_iso t = replicate (nat (t div 1000)) (CHR ''I'')"

definition demo_sleep_range :: "rat \<Rightarrow> bool" where
  "demo_sleep_range n \<longleftrightarrow> n * 10 ^ 9 < - (2 ^ 63) \<or> 2 ^ 63 \<le> n * 10 ^ 9"

definition temp_alert :: rule where
  "temp_alert =
     \<lparr>r_name = ''temp_alert'',
      r_trigger = \<lparr>t_type = ''sensor'', t_config = [(''sensor_id'', VStr ''t1'')]\<rparr>,
      r_conditions = [\<lparr>c_field = ''sensor.t1.value'', c_op = ''>'', c_value = VInt 30, c_negate = False\<rparr>],
      r_actions = [\<lparr>a_type = ''log_message'', a_target = None, a_params = [(''message'', VStr ''hot!'')]\<rparr>],
      r_enabled = True, r_priority = 5, r_description = [], r_created_at = ''2024-01-01T00:00:00'',
      r_last_triggered = None, r_trigger_count = 0\<rparr>"

definition test_hub :: hub where
  "test_hub = snd (add_rule temp_alert (init_hub demo_clock demo_iso demo_sleep_range))"

text \<open>
  Two variants of the fixture: a rule whose second action has an unknown tag, and the
  rule of scenario 5, a log message followed by a call of a service nobody registered.
\<close>

definition faulty_alert :: rule where
  "faulty_alert =
     temp_alert\<lparr>r_actions :=
       [\<lparr>a_type = ''log_message'', a_target = None, a_params = [(''message'', VStr ''hot!'')]\<rparr>,
        \<lparr>a_type = ''explode'', a_target = None, a_params = []\<rparr>,
        \<lparr>a_type = ''log_message'', a_target = None, a_params = [(''message'', VStr ''after'')]\<rparr>]\<rparr>"

definition faulty_hub :: hub where
  "faulty_hub = snd (add_rule faulty_alert (init_hub demo_clock demo_iso demo_sleep_range))"

definition siren_alert :: rule where
  "siren_alert =
     temp_alert\<lparr>r_actions :=
       [\<lparr>a_type = ''log_message'', a_target = None, a_params = [(''message'', VStr ''hot!'')]\<rparr>,
        \<lparr>a_type = ''call_service'', a_target = Some ''siren'', a_params = [(''level'', VInt 3)]\<rparr>]\<rparr>"

definition siren_hub :: hub where
  "siren_hub = snd (add_rule siren_alert (init_hub demo_clock demo_iso demo_sleep_range))"

text \<open>
  The rule of the fixture with the largest trigger count the store can hold.
\<close>

definition worn_alert :: rule where
  "worn_alert = temp_alert\<lparr>r_trigger_count := 2 ^ 63 - 1\<rparr>"

definition worn_hub :: hub where
  "worn_hub = snd (add_rule worn_alert (init_hub demo_clock demo_iso demo_sleep_range))"

text \<open>
  Three rule documents: one with the two required fields only, one for a disabled rule,
  and one without a name.
\<close>

definition minimal_doc :: rule_doc where
  "minimal_doc =
     \<lparr>d_name = Some ''json_rule'',
      d_trigger = Some \<lparr>td_type = Some ''event'', td_config = None, td_other_keys = []\<rparr>,
      d_conditions = None, d_actions = None, d_enabled = None, d_priority = None,
      d_description = None, d_created_at = None, d_last_triggered = None,
      d_trigger_count = None\<rparr>"

definition quiet_doc :: rule_doc where
  "quiet_doc = minimal_doc\<lparr>d_name := Some ''quiet'', d_enabled := Some False\<rparr>"

definition nameless_doc :: rule_doc where
  "nameless_doc = minimal_doc\<lparr>d_name := None\<rparr>"

text \<open>
  A document with the two required fields and a trigger count one above the largest
  integer of the store, and the rule of the fixture under another name with such a
  priority.
\<close>

definition oversized_doc :: rule_doc where
  "oversized_doc = minimal_doc\<lparr>d_trigger_count := Some (2 ^ 63)\<rparr>"

definition heavy_alert :: rule where
  "heavy_alert = temp_alert\<lparr>r_name := ''heavy'', r_priority := 2 ^ 63\<rparr>"

definition reading :: "rat \<Rightarrow> ctxt" where
  "reading v = [(''sensor'', VDict [(''t1'', VDict [(''value'', VFloat v), (''unit'', VStr ''C'')])])]"

section \<open>Properties of the condition matcher\<close>

lemma resolve_parts_None [simp]: "resolve_parts ps VNone = VNone"
  by (cases ps) simp_all

lemma path_missing_resolve: "path_missing ps v \<Longrightarrow> resolve_parts ps v = VNone"
  by (induction ps arbitrary: v) (auto simp: dict_get_def split: pyval.splits option.splits)

lemma path_stored_resolve: "path_stored ps v = Some w \<Longrightarrow> resolve_parts ps v = w"
  by (induction ps arbitrary: v) (auto simp: dict_get_def split: pyval.splits option.splits)

lemma path_missing_iff: "path_missing ps v \<longleftrightarrow> path_stored ps v = None"
  by (induction ps arbitrary: v) (auto split: pyval.splits option.splits)

lemma evaluate_None:
  "resolve_path (c_field c) ctx = VNone \<Longrightarrow> evaluate c ctx = Inr (c_negate c)"
  by (simp add: evaluate_def)

lemma evaluate_unknown_operator:
  assumes "resolve_path (c_field c) ctx \<noteq> VNone" and "map_of OP_MAP (c_op c) = None"
  shows "evaluate c ctx = Inl (InvalidOperator (c_op c))"
  using assms by (simp add: evaluate_def)

text \<open>
  Claim C1. Whenever the walk along \<open>condition.field\<close> is missing (some step meets a
  value that is not a mapping, or a key that is absent), the path resolver returns the
  missing marker \<open>None\<close>; and whenever the resolver returns that marker,
  \<open>Condition.evaluate\<close> returns exactly \<open>condition.negate\<close>, as a value and not
  as an exception.
\<close>

theorem missing_field_returns_negate:
  "(path_missing (split_dot (c_field c)) (VDict ctx) \<longrightarrow> resolve_path (c_field c) ctx = VNone)
   \<and> (resolve_path (c_field c) ctx = VNone \<longrightarrow> evaluate c ctx = Inr (c_negate c))"
  by (simp add: resolve_path_def path_missing_resolve evaluate_None)

theorem missing_field_returns_negate_witness:
  "path_missing (split_dot ''sensor.t9.value'')
     (VDict [(''sensor'', VDict [(''t1'', VDict [(''value'', VInt 35)])])])
   \<and> resolve_path ''sensor.t9.value''
       [(''sensor'', VDict [(''t1'', VDict [(''value'', VInt 35)])])] = VNone
   \<and> evaluate \<lparr>c_field = ''sensor.t9.value'', c_op = ''>'', c_value = VInt 30, c_negate = True\<rparr>
       [(''sensor'', VDict [(''t1'', VDict [(''value'', VInt 35)])])] = Inr True"
  using missing_field_returns_negate
    [of "\<lparr>c_field = ''sensor.t9.value'', c_op = ''>'', c_value = VInt 30, c_negate = True\<rparr>"
        "[(''sensor'', VDict [(''t1'', VDict [(''value'', VInt 35)])])]"]
  by simp

text \<open>
  Claim C10. When every key of \<open>condition.field\<close> is found and the value stored at the
  end of the path is an explicit \<open>None\<close>, \<open>Condition.evaluate\<close> returns
  \<open>condition.negate\<close> whatever the operator string is, so it does not raise the
  unknown-operator error even when the operator is not in the table, and it returns the
  same result as on any context where the path is missing.
\<close>

theorem stored_null_returns_negate:
  assumes "path_stored (split_dot (c_field c)) (VDict ctx) = Some VNone"
  shows "evaluate c ctx = Inr (c_negate c)
    \<and> evaluate c ctx \<noteq> Inl (InvalidOperator (c_op c))
    \<and> (\<forall>ctx'. path_missing (split_dot (c_field c)) (VDict ctx') \<longrightarrow> evaluate c ctx' = evaluate c ctx)"
proof -
  have "resolve_path (c_field c) ctx = VNone"
    using assms by (simp add: resolve_path_def path_stored_resolve)
  then have here: "evaluate c ctx = Inr (c_negate c)"
    by (rule evaluate_None)
  have "evaluate c ctx' = Inr (c_negate c)"
    if "path_missing (split_dot (c_field c)) (VDict ctx')" for ctx'
    using that by (simp add: resolve_path_def path_missing_resolve evaluate_None)
  with here show ?thesis by simp
qed

theorem stored_null_returns_negate_witness:
  "path_stored (split_dot ''sensor.t1.value'')
     (VDict [(''sensor'', VDict [(''t1'', VDict [(''value'', VNone)])])]) = Some VNone
   \<and> map_of OP_MAP ''~='' = None
   \<and> evaluate \<lparr>c_field = ''sensor.t1.value'', c_op = ''~='', c_value = VInt 30, c_negate = False\<rparr>
       [(''sensor'', VDict [(''t1'', VDict [(''value'', VNone)])])] = Inr False
   \<and> evaluate \<lparr>c_field = ''sensor.t1.value'', c_op = ''~='', c_value = VInt 30, c_negate = False\<rparr>
       [(''sensor'', VDict [(''t1'', VDict [(''value'', VInt 35)])])] = Inl (InvalidOperator ''~='')"
proof -
  have stored: "path_stored (split_dot (c_field
       \<lparr>c_field = ''sensor.t1.value'', c_op = ''~='', c_value = VInt 30, c_negate = False\<rparr>))
     (VDict [(''sensor'', VDict [(''t1'', VDict [(''value'', VNone)])])]) = Some VNone"
    by simp
  have unknown: "map_of OP_MAP ''~='' = None"
    by (simp add: OP_MAP_def)
  have loud: "evaluate \<lparr>c_field = ''sensor.t1.value'', c_op = ''~='', c_value = VInt 30, c_negate = False\<rparr>
       [(''sensor'', VDict [(''t1'', VDict [(''value'', VInt 35)])])] = Inl (InvalidOperator ''~='')"
    by (simp add: evaluate_def resolve_path_def dict_get_def OP_MAP_def)
  from stored_null_returns_negate [OF stored] stored unknown loud show ?thesis
    by simp
qed

section \<open>Properties of rule-level evaluation\<close>

lemma eval_conditions_acc:
  "eval_conditions cs ctx failed = failed @ concat (map (\<lambda>c. failure_of c ctx) cs)"
  by (induction cs arbitrary: failed) (auto simp: failure_of_def split: sum.splits)

lemma failure_of_empty_iff: "failure_of c ctx = [] \<longleftrightarrow> evaluate c ctx = Inr True"
  by (auto simp: failure_of_def split: sum.splits)

lemma length_failure_of:
  "length (failure_of c ctx) = (if evaluate c ctx = Inr True then 0 else 1)"
  by (auto simp: failure_of_def split: sum.splits)

lemma length_concat_failures:
  "length (concat (map (\<lambda>c. failure_of c ctx) cs))
     = length (filter (\<lambda>c. evaluate c ctx \<noteq> Inr True) cs)"
  by (induction cs) (simp_all add: length_failure_of)

lemma evaluate_rule_failures:
  "snd (evaluate_rule rule ctx) = concat (map (\<lambda>c. failure_of c ctx) (r_conditions rule))"
  by (simp add: evaluate_rule_def Let_def eval_conditions_acc)

lemma evaluate_rule_passed:
  "fst (evaluate_rule rule ctx) \<longleftrightarrow> (\<forall>c \<in> set (r_conditions rule). evaluate c ctx = Inr True)"
  by (simp add: evaluate_rule_def Let_def eval_conditions_acc failure_of_empty_iff)

lemma evaluate_rule_passed_empty:
  "fst (evaluate_rule rule ctx) \<longleftrightarrow> snd (evaluate_rule rule ctx) = []"
  by (simp add: evaluate_rule_def Let_def)

text \<open>
  Claim C2. \<open>evaluate_rule\<close> always returns a pair (it raises nothing). Its failure
  list is the concatenation, over all the conditions of the rule in order, of what each
  condition contributes: nothing when the condition passes, one description when it
  fails, one error description when its evaluation raises (the unknown-operator error
  included). So every condition is evaluated, also after a failing one; the list has
  one entry per condition that does not pass; and \<open>passed\<close> is true exactly when the
  list is empty, which is exactly when every condition passes.
\<close>

theorem evaluate_rule_collects_all:
  "snd (evaluate_rule rule ctx) = concat (map (\<lambda>c. failure_of c ctx) (r_conditions rule))
   \<and> length (snd (evaluate_rule rule ctx))
       = length (filter (\<lambda>c. evaluate c ctx \<noteq> Inr True) (r_conditions rule))
   \<and> (fst (evaluate_rule rule ctx) \<longleftrightarrow> snd (evaluate_rule rule ctx) = [])
   \<and> (fst (evaluate_rule rule ctx) \<longleftrightarrow> (\<forall>c \<in> set (r_conditions rule). evaluate c ctx = Inr True))
   \<and> (\<forall>c \<in> set (r_conditions rule).
         (evaluate c ctx = Inr False
            \<longrightarrow> CondFailed (c_field c) (c_op c) (c_value c) \<in> set (snd (evaluate_rule rule ctx)))
       \<and> (\<forall>e. evaluate c ctx = Inl e \<longrightarrow> CondError e \<in> set (snd (evaluate_rule rule ctx))))"
proof -
  have members: "set (failure_of c ctx) \<subseteq> set (snd (evaluate_rule rule ctx))"
    if "c \<in> set (r_conditions rule)" for c
    using that by (auto simp: evaluate_rule_failures)
  have failed: "CondFailed (c_field c) (c_op c) (c_value c) \<in> set (failure_of c ctx)"
    if "evaluate c ctx = Inr False" for c
    using that by (simp add: failure_of_def)
  have raised: "CondError e \<in> set (failure_of c ctx)" if "evaluate c ctx = Inl e" for c e
    using that by (simp add: failure_of_def)
  have "length (snd (evaluate_rule rule ctx))
       = length (filter (\<lambda>c. evaluate c ctx \<noteq> Inr True) (r_conditions rule))"
    by (simp only: evaluate_rule_failures length_concat_failures)
  moreover have "fst (evaluate_rule rule ctx) \<longleftrightarrow> snd (evaluate_rule rule ctx) = []"
    by (rule evaluate_rule_passed_empty)
  moreover have "fst (evaluate_rule rule ctx)
      \<longleftrightarrow> (\<forall>c \<in> set (r_conditions rule). evaluate c ctx = Inr True)"
    by (rule evaluate_rule_passed)
  ultimately show ?thesis
    using members failed raised evaluate_rule_failures by blast
qed

theorem evaluate_rule_collects_all_witness:
  "evaluate_rule
     (temp_alert\<lparr>r_conditions :=
        [\<lparr>c_field = ''sensor.t1.value'', c_op = ''<'', c_value = VInt 10, c_negate = False\<rparr>,
         \<lparr>c_field = ''sensor.t1.value'', c_op = ''>'', c_value = VInt 30, c_negate = False\<rparr>,
         \<lparr>c_field = ''sensor.t1.value'', c_op = ''~='', c_value = VInt 30, c_negate = False\<rparr>,
         \<lparr>c_field = ''sensor.t1.value'', c_op = ''>'', c_value = VStr ''warm'', c_negate = False\<rparr>]\<rparr>)
     (reading 35)
   = (False, [CondFailed ''sensor.t1.value'' ''<'' (VInt 10),
              CondError (InvalidOperator ''~=''),
              CondError TypeError])"
proof -
  let ?rule = "temp_alert\<lparr>r_conditions :=
        [\<lparr>c_field = ''sensor.t1.value'', c_op = ''<'', c_value = VInt 10, c_negate = False\<rparr>,
         \<lparr>c_field = ''sensor.t1.value'', c_op = ''>'', c_value = VInt 30, c_negate = False\<rparr>,
         \<lparr>c_field = ''sensor.t1.value'', c_op = ''~='', c_value = VInt 30, c_negate = False\<rparr>,
         \<lparr>c_field = ''sensor.t1.value'', c_op = ''>'', c_value = VStr ''warm'', c_negate = False\<rparr>]\<rparr>"
  have snd_eq: "snd (evaluate_rule ?rule (reading 35))
      = [CondFailed ''sensor.t1.value'' ''<'' (VInt 10),
         CondError (InvalidOperator ''~=''), CondError TypeError]"
    using evaluate_rule_collects_all [of ?rule "reading 35"]
    by (simp add: failure_of_def evaluate_def resolve_path_def dict_get_def OP_MAP_def
        reading_def temp_alert_def)
  moreover have "\<not> fst (evaluate_rule ?rule (reading 35))"
    using evaluate_rule_collects_all [of ?rule "reading 35"] snd_eq by simp
  ultimately show ?thesis
    by (cases "evaluate_rule ?rule (reading 35)") simp
qed

section \<open>Properties of action execution and of the engine loop\<close>

lemma execute_action_outcome:
  "fst (execute_action act ctx s) = action_outcome (service_handlers s) (sleep_overflows s) act"
  by (simp add: execute_action_def action_outcome_def Let_def opt_str_def split: option.splits)

lemma hub_log_frame:
  "tbl_rules (hub_log l m c s) = tbl_rules s"
  "tbl_executions (hub_log l m c s) = tbl_executions s"
  "service_handlers (hub_log l m c s) = service_handlers s"
  "clock (hub_log l m c s) = clock s"
  "isoformat (hub_log l m c s) = isoformat s"
  "emitted (hub_log l m c s) = emitted s"
  "ticks (hub_log l m c s) = Suc (ticks s)"
  "sleep_overflows (hub_log l m c s) = sleep_overflows s"
  by (simp_all add: hub_log_def utcnow_def)

lemma emit_frame:
  "tbl_rules (emit e s) = tbl_rules s"
  "tbl_executions (emit e s) = tbl_executions s"
  "tbl_logs (emit e s) = tbl_logs s"
  "service_handlers (emit e s) = service_handlers s"
  "clock (emit e s) = clock s"
  "isoformat (emit e s) = isoformat s"
  "ticks (emit e s) = ticks s"
  "sleep_overflows (emit e s) = sleep_overflows s"
  by (simp_all add: emit_def)

lemma execute_action_frame:
  "tbl_rules (snd (execute_action act ctx s)) = tbl_rules s"
  "tbl_executions (snd (execute_action act ctx s)) = tbl_executions s"
  "service_handlers (snd (execute_action act ctx s)) = service_handlers s"
  "clock (snd (execute_action act ctx s)) = clock s"
  "isoformat (snd (execute_action act ctx s)) = isoformat s"
  "sleep_overflows (snd (execute_action act ctx s)) = sleep_overflows s"
  by (simp_all add: execute_action_def Let_def hub_log_frame emit_frame split: option.splits)

lemma run_actions_frame:
  "tbl_rules (snd (snd (run_actions acts ctx s acc))) = tbl_rules s
   \<and> tbl_executions (snd (snd (run_actions acts ctx s acc))) = tbl_executions s
   \<and> service_handlers (snd (snd (run_actions acts ctx s acc))) = service_handlers s
   \<and> clock (snd (snd (run_actions acts ctx s acc))) = clock s
   \<and> isoformat (snd (snd (run_actions acts ctx s acc))) = isoformat s
   \<and> sleep_overflows (snd (snd (run_actions acts ctx s acc))) = sleep_overflows s"
proof (induction acts arbitrary: s acc)
  case Nil
  then show ?case by simp
next
  case (Cons a acts)
  show ?case
  proof (cases "execute_action a ctx s")
    case (Pair r s1)
    have fr: "tbl_rules s1 = tbl_rules s" "tbl_executions s1 = tbl_executions s"
      "service_handlers s1 = service_handlers s" "clock s1 = clock s" "isoformat s1 = isoformat s"
      "sleep_overflows s1 = sleep_overflows s"
      using execute_action_frame [of a ctx s] Pair by simp_all
    show ?thesis
    proof (cases r)
      case (Inl e)
      with Pair fr show ?thesis by simp
    next
      case (Inr v)
      with Pair fr Cons.IH [of s1 "acc @ [v]"] show ?thesis by simp
    qed
  qed
qed


lemma run_actions_append:
  "run_actions (pre @ rest) ctx s acc =
     (case run_actions pre ctx s acc of
        (None, acc1, s1) \<Rightarrow> run_actions rest ctx s1 acc1
      | (Some e, acc1, s1) \<Rightarrow> (Some e, acc1, s1))"
proof (induction pre arbitrary: s acc)
  case Nil
  then show ?case by simp
next
  case (Cons a pre)
  then show ?case
    by (cases "execute_action a ctx s") (auto split: sum.splits)
qed

lemma run_actions_ok:
  assumes "\<forall>a \<in> set acts. \<not> isl (action_outcome (service_handlers s) (sleep_overflows s) a)"
  shows "fst (run_actions acts ctx s acc) = None
    \<and> fst (snd (run_actions acts ctx s acc))
        = acc @ map (\<lambda>a. projr (action_outcome (service_handlers s) (sleep_overflows s) a)) acts"
  using assms
proof (induction acts arbitrary: s acc)
  case Nil
  then show ?case by simp
next
  case (Cons a acts)
  obtain r s1 where ex: "execute_action a ctx s = (r, s1)"
    by (cases "execute_action a ctx s")
  have r: "r = action_outcome (service_handlers s) (sleep_overflows s) a"
    using execute_action_outcome [of a ctx s] ex by simp
  have h: "service_handlers s1 = service_handlers s" "sleep_overflows s1 = sleep_overflows s"
    using execute_action_frame(3,6) [of a ctx s] ex by simp_all
  have "\<not> isl r"
    using Cons.prems r by simp
  then obtain v where v: "r = Inr v"
    by (cases r) simp_all
  have "\<forall>b \<in> set acts. \<not> isl (action_outcome (service_handlers s1) (sleep_overflows s1) b)"
    using Cons.prems h by simp
  from Cons.IH [OF this, of "acc @ [v]"] ex v r h show ?case
    by simp
qed

lemma run_actions_fail_first:
  assumes "action_outcome (service_handlers s) (sleep_overflows s) a = Inl e"
  shows "run_actions (a # post) ctx s acc = (Some e, acc, snd (execute_action a ctx s))"
proof -
  obtain r s1 where ex: "execute_action a ctx s = (r, s1)"
    by (cases "execute_action a ctx s")
  have "r = Inl e"
    using execute_action_outcome [of a ctx s] ex assms by simp
  with ex show ?thesis by simp
qed

lemma run_actions_stop:
  assumes ok: "\<forall>b \<in> set pre. \<not> isl (action_outcome (service_handlers s) (sleep_overflows s) b)"
    and fail: "action_outcome (service_handlers s) (sleep_overflows s) a = Inl e"
  shows "run_actions (pre @ a # post) ctx s acc = run_actions (pre @ [a]) ctx s acc"
    and "fst (run_actions (pre @ a # post) ctx s acc) = Some e"
    and "fst (snd (run_actions (pre @ a # post) ctx s acc))
          = acc @ map (\<lambda>b. projr (action_outcome (service_handlers s) (sleep_overflows s) b)) pre"
proof -
  obtain x acc1 s1 where pre: "run_actions pre ctx s acc = (x, acc1, s1)"
    by (cases "run_actions pre ctx s acc") auto
  have x: "x = None"
    and acc1: "acc1 = acc @ map (\<lambda>b. projr (action_outcome (service_handlers s) (sleep_overflows s) b)) pre"
    using run_actions_ok [OF ok, of ctx acc] pre by simp_all
  have h: "service_handlers s1 = service_handlers s" "sleep_overflows s1 = sleep_overflows s"
    using run_actions_frame [of pre ctx s acc] pre by simp_all
  have fail1: "action_outcome (service_handlers s1) (sleep_overflows s1) a = Inl e"
    using fail h by simp
  have one: "run_actions (a # rest) ctx s1 acc1 = (Some e, acc1, snd (execute_action a ctx s1))" for rest
    by (rule run_actions_fail_first [OF fail1])
  show "run_actions (pre @ a # post) ctx s acc = run_actions (pre @ [a]) ctx s acc"
    by (simp add: run_actions_append [of pre] pre x one del: run_actions.simps)
  show "fst (run_actions (pre @ a # post) ctx s acc) = Some e"
    by (simp add: run_actions_append [of pre] pre x one del: run_actions.simps)
  have "fst (snd (run_actions (pre @ a # post) ctx s acc)) = acc1"
    by (simp add: run_actions_append [of pre] pre x one del: run_actions.simps)
  then show "fst (snd (run_actions (pre @ a # post) ctx s acc))
          = acc @ map (\<lambda>b. projr (action_outcome (service_handlers s) (sleep_overflows s) b)) pre"
    by (simp only: acc1)
qed

lemma process_rule_skip:
  assumes "\<not> fst (evaluate_rule rule ctx)"
  shows "process_rule tt ctx rule results s =
     (results @ [[(''rule'', RStr (r_name rule)), (''status'', RStr ''skipped''),
                  (''failed_conditions'', RFailed (snd (evaluate_rule rule ctx)))]],
      s\<lparr>ticks := Suc (ticks s)\<rparr>)"
  using assms by (simp add: process_rule_def utcnow_def split_def)

lemma process_rule_pass:
  assumes pass: "fst (evaluate_rule rule ctx)"
    and run: "run_actions (r_actions rule) ctx (s\<lparr>ticks := Suc (ticks s)\<rparr>) [] = (err, ares, s2)"
  shows "fst (process_rule tt ctx rule results s) =
      results @ [[(''rule'', RStr (r_name rule)),
                  (''status'', RStr (if err = None then ''ok'' else ''error'')),
                  (''actions'', RActions ares),
                  (''duration_ms'', RDuration (clock s (ticks s2) - clock s (ticks s)))]]"
    and "tbl_executions (snd (process_rule tt ctx rule results s)) =
      tbl_executions s @
        [\<lparr>ex_rule_name = r_name rule, ex_triggered_by = trigger_label tt,
          ex_context = filter (\<lambda>kv. fst kv \<noteq> ''credentials'') ctx,
          ex_result = (if err = None then ''ok'' else ''error''), ex_error = err,
          ex_ts = isoformat s (clock s (Suc (ticks s2))),
          ex_duration_ms = clock s (ticks s2) - clock s (ticks s)\<rparr>]"
    and "tbl_rules (snd (process_rule tt ctx rule results s)) =
      map (\<lambda>r. if row_name r = r_name rule
               then r\<lparr>row_trigger_count := sql_add_one (row_trigger_count r),
                      row_last_triggered := Some (isoformat s (clock s (Suc (Suc (ticks s2)))))\<rparr>
               else r)
        (tbl_rules s)"
    and "tbl_logs (snd (process_rule tt ctx rule results s)) = tbl_logs s2"
    and "emitted (snd (process_rule tt ctx rule results s)) =
      emitted s2 @ (case err of None \<Rightarrow> [] | Some e \<Rightarrow> [ActionError (r_name rule) e])"
    and "ticks (snd (process_rule tt ctx rule results s)) = ticks s2 + 3"
proof -
  have fr: "tbl_rules s2 = tbl_rules s" "tbl_executions s2 = tbl_executions s"
    "clock s2 = clock s" "isoformat s2 = isoformat s"
    using run_actions_frame [of "r_actions rule" ctx "s\<lparr>ticks := Suc (ticks s)\<rparr>" "[]"] run
    by simp_all
  note defs = process_rule_def utcnow_def split_def Let_def record_execution_def
    increment_trigger_def emit_def
  show "fst (process_rule tt ctx rule results s) =
      results @ [[(''rule'', RStr (r_name rule)),
                  (''status'', RStr (if err = None then ''ok'' else ''error'')),
                  (''actions'', RActions ares),
                  (''duration_ms'', RDuration (clock s (ticks s2) - clock s (ticks s)))]]"
    using pass run fr by (cases err) (simp_all add: defs)
  show "tbl_executions (snd (process_rule tt ctx rule results s)) =
      tbl_executions s @
        [\<lparr>ex_rule_name = r_name rule, ex_triggered_by = trigger_label tt,
          ex_context = filter (\<lambda>kv. fst kv \<noteq> ''credentials'') ctx,
          ex_result = (if err = None then ''ok'' else ''error''), ex_error = err,
          ex_ts = isoformat s (clock s (Suc (ticks s2))),
          ex_duration_ms = clock s (ticks s2) - clock s (ticks s)\<rparr>]"
    using pass run fr by (cases err) (simp_all add: defs)
  show "tbl_rules (snd (process_rule tt ctx rule results s)) =
      map (\<lambda>r. if row_name r = r_name rule
               then r\<lparr>row_trigger_count := sql_add_one (row_trigger_count r),
                      row_last_triggered := Some (isoformat s (clock s (Suc (Suc (ticks s2)))))\<rparr>
               else r)
        (tbl_rules s)"
    using pass run fr by (cases err) (simp_all add: defs)
  show "tbl_logs (snd (process_rule tt ctx rule results s)) = tbl_logs s2"
    using pass run fr by (cases err) (simp_all add: defs)
  show "emitted (snd (process_rule tt ctx rule results s)) =
      emitted s2 @ (case err of None \<Rightarrow> [] | Some e \<Rightarrow> [ActionError (r_name rule) e])"
    using pass run fr by (cases err) (simp_all add: defs)
  show "ticks (snd (process_rule tt ctx rule results s)) = ticks s2 + 3"
    using pass run fr by (cases err) (simp_all add: defs)
qed


lemma run_rules_append:
  "run_rules tt ctx (pre @ rest) results s =
     (case run_rules tt ctx pre results s of (results1, s1) \<Rightarrow> run_rules tt ctx rest results1 s1)"
  by (induction pre arbitrary: results s) (auto split: prod.splits)

lemma process_rule_rows:
  "tbl_rules (snd (process_rule tt ctx rule results s)) =
     (if fst (evaluate_rule rule ctx)
      then map (\<lambda>r. if row_name r = r_name rule
               then r\<lparr>row_trigger_count := sql_add_one (row_trigger_count r),
                      row_last_triggered := Some (isoformat s (clock s
                        (Suc (Suc (ticks (snd (snd (run_actions (r_actions rule) ctx
                           (s\<lparr>ticks := Suc (ticks s)\<rparr>) []))))))))\<rparr>
               else r) (tbl_rules s)
      else tbl_rules s)"
proof (cases "fst (evaluate_rule rule ctx)")
  case True
  obtain err ares s2 where run:
    "run_actions (r_actions rule) ctx (s\<lparr>ticks := Suc (ticks s)\<rparr>) [] = (err, ares, s2)"
    by (cases "run_actions (r_actions rule) ctx (s\<lparr>ticks := Suc (ticks s)\<rparr>) []") auto
  show ?thesis
    using process_rule_pass(3) [OF True run, of tt results] True run by simp
next
  case False
  then show ?thesis by (simp add: process_rule_skip)
qed

lemma filter_name_map_other:
  assumes "m \<noteq> n" and "\<And>r. row_name (g r) = row_name r"
  shows "filter (\<lambda>row. row_name row = n) (map (\<lambda>r. if row_name r = m then g r else r) rows)
     = filter (\<lambda>row. row_name row = n) rows"
  using assms by (induction rows) auto

lemma process_rule_rows_other:
  assumes "\<not> fst (evaluate_rule rule ctx) \<or> r_name rule \<noteq> n"
  shows "filter (\<lambda>row. row_name row = n) (tbl_rules (snd (process_rule tt ctx rule results s)))
     = filter (\<lambda>row. row_name row = n) (tbl_rules s)"
proof (cases "fst (evaluate_rule rule ctx)")
  case True
  with assms have "r_name rule \<noteq> n" by simp
  then show ?thesis
    by (simp add: process_rule_rows True filter_name_map_other)
next
  case False
  then show ?thesis by (simp add: process_rule_rows)
qed

lemma process_rule_execs:
  "map ex_rule_name (tbl_executions (snd (process_rule tt ctx rule results s))) =
     map ex_rule_name (tbl_executions s) @ (if fst (evaluate_rule rule ctx) then [r_name rule] else [])"
proof (cases "fst (evaluate_rule rule ctx)")
  case True
  obtain err ares s2 where run:
    "run_actions (r_actions rule) ctx (s\<lparr>ticks := Suc (ticks s)\<rparr>) [] = (err, ares, s2)"
    by (cases "run_actions (r_actions rule) ctx (s\<lparr>ticks := Suc (ticks s)\<rparr>) []") auto
  show ?thesis
    using process_rule_pass(2) [OF True run, of tt results] True by simp
next
  case False
  then show ?thesis by (simp add: process_rule_skip)
qed

lemma process_rule_execs_prefix:
  "\<exists>new. tbl_executions (snd (process_rule tt ctx rule results s)) = tbl_executions s @ new
     \<and> map ex_rule_name new = (if fst (evaluate_rule rule ctx) then [r_name rule] else [])"
proof (cases "fst (evaluate_rule rule ctx)")
  case True
  obtain err ares s2 where run:
    "run_actions (r_actions rule) ctx (s\<lparr>ticks := Suc (ticks s)\<rparr>) [] = (err, ares, s2)"
    by (cases "run_actions (r_actions rule) ctx (s\<lparr>ticks := Suc (ticks s)\<rparr>) []") auto
  show ?thesis
    using process_rule_pass(2) [OF True run, of tt results] True by simp
next
  case False
  then show ?thesis by (simp add: process_rule_skip)
qed

lemma run_rules_execs:
  "\<exists>new. tbl_executions (snd (run_rules tt ctx rules results s)) = tbl_executions s @ new
     \<and> map ex_rule_name new = map r_name (filter (\<lambda>r. fst (evaluate_rule r ctx)) rules)"
proof (induction rules arbitrary: results s)
  case Nil
  then show ?case by simp
next
  case (Cons rule rules)
  obtain results1 s1 where step: "process_rule tt ctx rule results s = (results1, s1)"
    by (cases "process_rule tt ctx rule results s")
  obtain new1 where new1: "tbl_executions s1 = tbl_executions s @ new1"
    "map ex_rule_name new1 = (if fst (evaluate_rule rule ctx) then [r_name rule] else [])"
    using process_rule_execs_prefix [of tt ctx rule results s] step by auto
  obtain new2 where new2:
    "tbl_executions (snd (run_rules tt ctx rules results1 s1)) = tbl_executions s1 @ new2"
    "map ex_rule_name new2 = map r_name (filter (\<lambda>r. fst (evaluate_rule r ctx)) rules)"
    using Cons.IH [of results1 s1] by auto
  have "tbl_executions (snd (run_rules tt ctx (rule # rules) results s))
      = tbl_executions s @ (new1 @ new2)"
    using step new1(1) new2(1) by simp
  moreover have "map ex_rule_name (new1 @ new2)
      = map r_name (filter (\<lambda>r. fst (evaluate_rule r ctx)) (rule # rules))"
    using new1(2) new2(2) by simp
  ultimately show ?case by blast
qed

lemma run_rules_rows_other:
  assumes "\<forall>r \<in> set rules. fst (evaluate_rule r ctx) \<longrightarrow> r_name r \<noteq> n"
  shows "filter (\<lambda>row. row_name row = n) (tbl_rules (snd (run_rules tt ctx rules results s)))
     = filter (\<lambda>row. row_name row = n) (tbl_rules s)"
  using assms
proof (induction rules arbitrary: results s)
  case Nil
  then show ?case by simp
next
  case (Cons rule rules)
  obtain results1 s1 where step: "process_rule tt ctx rule results s = (results1, s1)"
    by (cases "process_rule tt ctx rule results s")
  have "filter (\<lambda>row. row_name row = n) (tbl_rules s1) = filter (\<lambda>row. row_name row = n) (tbl_rules s)"
    using process_rule_rows_other [of rule ctx n tt results s] step Cons.prems by auto
  moreover have "filter (\<lambda>row. row_name row = n) (tbl_rules (snd (run_rules tt ctx rules results1 s1)))
     = filter (\<lambda>row. row_name row = n) (tbl_rules s1)"
    using Cons.IH [of results1 s1] Cons.prems by simp
  ultimately show ?case using step by simp
qed

lemma process_rule_results:
  "\<exists>entry. fst (process_rule tt ctx rule results s) = results @ [entry]
     \<and> map_of entry ''rule'' = Some (RStr (r_name rule))
     \<and> (map_of entry ''status'' = Some (RStr ''skipped'') \<longleftrightarrow> \<not> fst (evaluate_rule rule ctx))"
proof (cases "fst (evaluate_rule rule ctx)")
  case True
  obtain err ares s2 where run:
    "run_actions (r_actions rule) ctx (s\<lparr>ticks := Suc (ticks s)\<rparr>) [] = (err, ares, s2)"
    by (cases "run_actions (r_actions rule) ctx (s\<lparr>ticks := Suc (ticks s)\<rparr>) []") auto
  show ?thesis
    using process_rule_pass(1) [OF True run, of tt results] True by simp
next
  case False
  then show ?thesis by (simp add: process_rule_skip)
qed

lemma run_rules_results:
  "\<exists>entries. fst (run_rules tt ctx rules results s) = results @ entries
     \<and> map (\<lambda>e. map_of e ''rule'') entries = map (\<lambda>r. Some (RStr (r_name r))) rules
     \<and> map (\<lambda>e. map_of e ''status'' = Some (RStr ''skipped'')) entries
         = map (\<lambda>r. \<not> fst (evaluate_rule r ctx)) rules"
proof (induction rules arbitrary: results s)
  case Nil
  then show ?case by simp
next
  case (Cons rule rules)
  obtain results1 s1 where step: "process_rule tt ctx rule results s = (results1, s1)"
    by (cases "process_rule tt ctx rule results s")
  obtain entry where entry: "results1 = results @ [entry]"
    "map_of entry ''rule'' = Some (RStr (r_name rule))"
    "map_of entry ''status'' = Some (RStr ''skipped'') \<longleftrightarrow> \<not> fst (evaluate_rule rule ctx)"
    using process_rule_results [of tt ctx rule results s] step by auto
  obtain entries where entries: "fst (run_rules tt ctx rules results1 s1) = results1 @ entries"
    "map (\<lambda>e. map_of e ''rule'') entries = map (\<lambda>r. Some (RStr (r_name r))) rules"
    "map (\<lambda>e. map_of e ''status'' = Some (RStr ''skipped'')) entries
         = map (\<lambda>r. \<not> fst (evaluate_rule r ctx)) rules"
    using Cons.IH [of results1 s1] by auto
  have "fst (run_rules tt ctx (rule # rules) results s) = results @ (entry # entries)"
    using step entry(1) entries(1) by simp
  moreover have "map (\<lambda>e. map_of e ''rule'') (entry # entries)
       = map (\<lambda>r. Some (RStr (r_name r))) (rule # rules)"
    using entry(2) entries(2) by simp
  moreover have "map (\<lambda>e. map_of e ''status'' = Some (RStr ''skipped'')) (entry # entries)
         = map (\<lambda>r. \<not> fst (evaluate_rule r ctx)) (rule # rules)"
    using entry(3) entries(3) by simp
  ultimately show ?case by blast
qed

lemma read_definition_eq:
  "read_definition row s = (row_definition row, s\<lparr>ticks := Suc (ticks s)\<rparr>)"
  by (simp add: read_definition_def utcnow_def)

lemma load_rules_eq:
  "load_rules rows result s
     = (result @ map (\<lambda>row. (rule_of_row row)\<lparr>r_enabled := True\<rparr>) rows,
        s\<lparr>ticks := ticks s + length rows\<rparr>)"
proof (induction rows arbitrary: result s)
  case Nil
  then show ?case by simp
next
  case (Cons row rows)
  show ?case
    by (simp add: read_definition_eq Cons.IH rule_of_row_def)
qed

lemma active_rules_eq:
  "fst (get_active_rules s)
     = map (\<lambda>row. (rule_of_row row)\<lparr>r_enabled := True\<rparr>)
         (sort_key (\<lambda>row. - row_priority row) (filter row_enabled (tbl_rules s)))"
  by (simp add: get_active_rules_def load_rules_eq active_rows_def)

lemma active_rules_state:
  "snd (get_active_rules s) = s\<lparr>ticks := ticks s + length (filter row_enabled (tbl_rules s))\<rparr>"
  by (simp add: get_active_rules_def load_rules_eq active_rows_def)

lemma run_rule_engine_eq:
  "run_rule_engine ctx tt s
     = run_rules tt ctx (selected_rules tt s) []
         (s\<lparr>ticks := ticks s + length (filter row_enabled (tbl_rules s))\<rparr>)"
  by (simp add: run_rule_engine_def selected_rules_def split_def active_rules_state)

lemma get_active_rules_names:
  assumes "wf_hub s"
  shows "map r_name (fst (get_active_rules s))
     = map row_name (sort_key (\<lambda>row. - row_priority row) (filter row_enabled (tbl_rules s)))"
proof -
  have "r_name (row_definition row) = row_name row" if "row \<in> set (tbl_rules s)" for row
    using assms that by (simp add: wf_hub_def list_all_iff)
  then show ?thesis
    by (simp add: active_rules_eq rule_of_row_def)
qed

lemma distinct_map_sort_key:
  "distinct (map g (sort_key k xs)) \<longleftrightarrow> distinct (map g xs)"
  by (simp add: distinct_map)

lemma get_active_rules_distinct:
  assumes "wf_hub s"
  shows "distinct (map r_name (fst (get_active_rules s)))"
proof -
  have "distinct (map row_name (filter row_enabled (tbl_rules s)))"
    using assms by (simp add: wf_hub_def distinct_map_filter)
  then show ?thesis
    by (simp only: get_active_rules_names [OF assms] distinct_map_sort_key)
qed

lemma selected_rules_distinct:
  assumes "wf_hub s"
  shows "distinct (map r_name (selected_rules tt s))"
  using get_active_rules_distinct [OF assms]
  by (auto simp: selected_rules_def by_trigger_type_def Let_def distinct_map_filter split: option.splits)

lemma selected_rules_subset:
  "set (selected_rules tt s) \<subseteq> set (fst (get_active_rules s))"
  by (auto simp: selected_rules_def by_trigger_type_def Let_def split: option.splits)

lemma active_rule_has_row:
  assumes "wf_hub s" and "rule \<in> set (fst (get_active_rules s))"
  shows "\<exists>row \<in> set (tbl_rules s). row_name row = r_name rule \<and> row_enabled row
     \<and> rule = (rule_of_row row)\<lparr>r_enabled := True\<rparr>"
proof -
  from assms(2) obtain row where row: "row \<in> set (tbl_rules s)" "row_enabled row"
    "rule = (rule_of_row row)\<lparr>r_enabled := True\<rparr>"
    by (auto simp: active_rules_eq)
  have "r_name (row_definition row) = row_name row"
    using assms(1) row(1) by (simp add: wf_hub_def list_all_iff)
  with row show ?thesis
    by (auto simp: rule_of_row_def)
qed

lemma run_rules_keeps_results:
  "\<exists>entries. fst (run_rules tt ctx rules results s) = results @ entries"
  using run_rules_results [of tt ctx rules results s] by blast

lemma run_rules_skipped_entry:
  assumes "rule \<in> set rules" and "\<not> fst (evaluate_rule rule ctx)"
  shows "[(''rule'', RStr (r_name rule)), (''status'', RStr ''skipped''),
          (''failed_conditions'', RFailed (snd (evaluate_rule rule ctx)))]
         \<in> set (fst (run_rules tt ctx rules results s))"
  using assms
proof (induction rules arbitrary: results s)
  case Nil
  then show ?case by simp
next
  case (Cons r rules)
  obtain results1 s1 where step: "process_rule tt ctx r results s = (results1, s1)"
    by (cases "process_rule tt ctx r results s")
  show ?case
  proof (cases "r = rule")
    case True
    have "results1 = results @ [[(''rule'', RStr (r_name rule)), (''status'', RStr ''skipped''),
          (''failed_conditions'', RFailed (snd (evaluate_rule rule ctx)))]]"
      using step True Cons.prems(2) by (simp add: process_rule_skip)
    moreover obtain entries where "fst (run_rules tt ctx rules results1 s1) = results1 @ entries"
      using run_rules_keeps_results by blast
    ultimately show ?thesis using step by simp
  next
    case False
    with Cons.prems have "rule \<in> set rules" by simp
    from Cons.IH [OF this Cons.prems(2), of results1 s1] step show ?thesis by simp
  qed
qed

lemma run_rules_execs_other:
  assumes "\<forall>r \<in> set rules. fst (evaluate_rule r ctx) \<longrightarrow> r_name r \<noteq> n"
  shows "filter (\<lambda>e. ex_rule_name e = n) (tbl_executions (snd (run_rules tt ctx rules results s)))
     = filter (\<lambda>e. ex_rule_name e = n) (tbl_executions s)"
proof -
  obtain new where new: "tbl_executions (snd (run_rules tt ctx rules results s)) = tbl_executions s @ new"
    "map ex_rule_name new = map r_name (filter (\<lambda>r. fst (evaluate_rule r ctx)) rules)"
    using run_rules_execs [of tt ctx rules results s] by blast
  have "n \<notin> set (map ex_rule_name new)"
    using assms new(2) by auto
  then have "filter (\<lambda>e. ex_rule_name e = n) new = []"
    by (auto simp: filter_empty_conv)
  with new(1) show ?thesis by simp
qed

lemma distinct_names_same_rule:
  assumes "distinct (map r_name rules)" and "r \<in> set rules" and "rule \<in> set rules"
    and "r_name r = r_name rule"
  shows "r = rule"
  using assms by (meson distinct_map inj_on_def)

lemma skipped_rule_whole_pass:
  assumes wf: "wf_hub s" and sel: "rule \<in> set (selected_rules tt s)"
    and fails: "\<not> fst (evaluate_rule rule ctx)"
  shows "[(''rule'', RStr (r_name rule)), (''status'', RStr ''skipped''),
          (''failed_conditions'', RFailed (snd (evaluate_rule rule ctx)))]
         \<in> set (fst (run_rule_engine ctx tt s))"
    and "filter (\<lambda>row. row_name row = r_name rule) (tbl_rules (snd (run_rule_engine ctx tt s)))
         = filter (\<lambda>row. row_name row = r_name rule) (tbl_rules s)"
    and "filter (\<lambda>e. ex_rule_name e = r_name rule) (tbl_executions (snd (run_rule_engine ctx tt s)))
         = filter (\<lambda>e. ex_rule_name e = r_name rule) (tbl_executions s)"
proof -
  have other: "\<forall>r \<in> set (selected_rules tt s). fst (evaluate_rule r ctx) \<longrightarrow> r_name r \<noteq> r_name rule"
    using distinct_names_same_rule [OF selected_rules_distinct [OF wf, of tt] _ sel] fails
    by blast
  show "[(''rule'', RStr (r_name rule)), (''status'', RStr ''skipped''),
          (''failed_conditions'', RFailed (snd (evaluate_rule rule ctx)))]
         \<in> set (fst (run_rule_engine ctx tt s))"
    unfolding run_rule_engine_eq by (rule run_rules_skipped_entry [OF sel fails])
  show "filter (\<lambda>row. row_name row = r_name rule) (tbl_rules (snd (run_rule_engine ctx tt s)))
         = filter (\<lambda>row. row_name row = r_name rule) (tbl_rules s)"
    using run_rules_rows_other [OF other, where tt = tt and results = "[]"
        and s = "s\<lparr>ticks := ticks s + length (filter row_enabled (tbl_rules s))\<rparr>"]
    by (simp add: run_rule_engine_eq)
  show "filter (\<lambda>e. ex_rule_name e = r_name rule) (tbl_executions (snd (run_rule_engine ctx tt s)))
         = filter (\<lambda>e. ex_rule_name e = r_name rule) (tbl_executions s)"
    using run_rules_execs_other [OF other, where tt = tt and results = "[]"
        and s = "s\<lparr>ticks := ticks s + length (filter row_enabled (tbl_rules s))\<rparr>"]
    by (simp add: run_rule_engine_eq)
qed

lemma execute_action_ticks: "ticks s \<le> ticks (snd (execute_action act ctx s))"
  by (simp add: execute_action_def Let_def hub_log_frame emit_frame split: option.splits)

lemma run_actions_ticks: "ticks s \<le> ticks (snd (snd (run_actions acts ctx s acc)))"
proof (induction acts arbitrary: s acc)
  case Nil
  then show ?case by simp
next
  case (Cons a acts)
  obtain r s1 where ex: "execute_action a ctx s = (r, s1)"
    by (cases "execute_action a ctx s")
  have le: "ticks s \<le> ticks s1"
    using execute_action_ticks [of s a ctx] ex by simp
  show ?case
  proof (cases r)
    case (Inl e)
    with ex le show ?thesis by simp
  next
    case (Inr v)
    from Cons.IH [of s1 "acc @ [v]"] le ex Inr show ?thesis by simp
  qed
qed

lemma process_rule_env:
  "clock (snd (process_rule tt ctx rule results s)) = clock s"
  "isoformat (snd (process_rule tt ctx rule results s)) = isoformat s"
  "service_handlers (snd (process_rule tt ctx rule results s)) = service_handlers s"
  "ticks s < ticks (snd (process_rule tt ctx rule results s))"
  "sleep_overflows (snd (process_rule tt ctx rule results s)) = sleep_overflows s"
proof -
  obtain err ares s2 where run:
    "run_actions (r_actions rule) ctx (s\<lparr>ticks := Suc (ticks s)\<rparr>) [] = (err, ares, s2)"
    by (cases "run_actions (r_actions rule) ctx (s\<lparr>ticks := Suc (ticks s)\<rparr>) []") auto
  have fr: "clock s2 = clock s" "isoformat s2 = isoformat s" "service_handlers s2 = service_handlers s"
    "sleep_overflows s2 = sleep_overflows s"
    using run_actions_frame [of "r_actions rule" ctx "s\<lparr>ticks := Suc (ticks s)\<rparr>" "[]"] run
    by simp_all
  have tk: "Suc (ticks s) \<le> ticks s2"
    using run_actions_ticks [of "s\<lparr>ticks := Suc (ticks s)\<rparr>" "r_actions rule" ctx "[]"] run
    by simp
  note defs = process_rule_def utcnow_def split_def Let_def record_execution_def
    increment_trigger_def emit_def
  show "clock (snd (process_rule tt ctx rule results s)) = clock s"
    using run fr by (cases err) (simp_all add: defs)
  show "isoformat (snd (process_rule tt ctx rule results s)) = isoformat s"
    using run fr by (cases err) (simp_all add: defs)
  show "service_handlers (snd (process_rule tt ctx rule results s)) = service_handlers s"
    using run fr by (cases err) (simp_all add: defs)
  show "ticks s < ticks (snd (process_rule tt ctx rule results s))"
    using run tk by (cases err) (simp_all add: defs)
  show "sleep_overflows (snd (process_rule tt ctx rule results s)) = sleep_overflows s"
    using run fr by (cases err) (simp_all add: defs)
qed

lemma run_rules_env:
  "clock (snd (run_rules tt ctx rules results s)) = clock s
   \<and> isoformat (snd (run_rules tt ctx rules results s)) = isoformat s
   \<and> service_handlers (snd (run_rules tt ctx rules results s)) = service_handlers s
   \<and> ticks s \<le> ticks (snd (run_rules tt ctx rules results s))
   \<and> sleep_overflows (snd (run_rules tt ctx rules results s)) = sleep_overflows s"
proof (induction rules arbitrary: results s)
  case Nil
  then show ?case by simp
next
  case (Cons rule rules)
  obtain results1 s1 where step: "process_rule tt ctx rule results s = (results1, s1)"
    by (cases "process_rule tt ctx rule results s")
  have env: "clock s1 = clock s" "isoformat s1 = isoformat s"
    "service_handlers s1 = service_handlers s" "ticks s < ticks s1"
    "sleep_overflows s1 = sleep_overflows s"
    using process_rule_env [where tt = tt and ctx = ctx and rule = rule and results = results and s = s]
      step by simp_all
  from Cons.IH [of results1 s1] env step show ?case by simp
qed

lemma filter_name_map_same:
  assumes "\<And>r. row_name (g r) = row_name r"
  shows "filter (\<lambda>row. row_name row = n) (map (\<lambda>r. if row_name r = n then g r else r) rows)
     = map g (filter (\<lambda>row. row_name row = n) rows)"
  using assms by (induction rows) auto

lemma distinct_names_filter:
  assumes "distinct (map row_name rows)" and "row \<in> set rows"
  shows "filter (\<lambda>r. row_name r = row_name row) rows = [row]"
  using assms
proof (induction rows)
  case Nil
  then show ?case by simp
next
  case (Cons r rows)
  show ?case
  proof (cases "r = row")
    case True
    have "\<forall>x \<in> set rows. row_name x \<noteq> row_name row"
      using Cons.prems(1) True by (auto simp: image_iff)
    then have "filter (\<lambda>r. row_name r = row_name row) rows = []"
      by (simp add: filter_empty_conv)
    with True show ?thesis by simp
  next
    case False
    with Cons.prems have in_rows: "row \<in> set rows" by simp
    then have "row_name r \<noteq> row_name row"
      using Cons.prems(1) by auto
    with Cons.IH in_rows Cons.prems(1) show ?thesis by simp
  qed
qed

lemma passing_rule_whole_pass_rows:
  assumes dist: "distinct (map r_name rules)" and mem: "rule \<in> set rules"
    and pass: "fst (evaluate_rule rule ctx)"
  shows "\<exists>t. ticks s \<le> t \<and> t < ticks (snd (run_rules tt ctx rules results s))
     \<and> filter (\<lambda>row. row_name row = r_name rule) (tbl_rules (snd (run_rules tt ctx rules results s)))
       = map (\<lambda>r. r\<lparr>row_trigger_count := sql_add_one (row_trigger_count r),
                     row_last_triggered := Some (isoformat s (clock s t))\<rparr>)
           (filter (\<lambda>row. row_name row = r_name rule) (tbl_rules s))"
proof -
  from mem obtain pre post where split: "rules = pre @ rule # post"
    by (meson split_list)
  have apart: "r_name rule \<notin> r_name ` set pre" "r_name rule \<notin> r_name ` set post"
    using dist split by auto
  have pre_other: "\<forall>r \<in> set pre. fst (evaluate_rule r ctx) \<longrightarrow> r_name r \<noteq> r_name rule"
    using apart(1) by (metis imageI)
  have post_other: "\<forall>r \<in> set post. fst (evaluate_rule r ctx) \<longrightarrow> r_name r \<noteq> r_name rule"
    using apart(2) by (metis imageI)
  obtain res1 s1 where r1: "run_rules tt ctx pre results s = (res1, s1)"
    by (cases "run_rules tt ctx pre results s")
  obtain res2 s2 where r2: "process_rule tt ctx rule res1 s1 = (res2, s2)"
    by (cases "process_rule tt ctx rule res1 s1")
  obtain res3 s3 where r3: "run_rules tt ctx post res2 s2 = (res3, s3)"
    by (cases "run_rules tt ctx post res2 s2")
  have whole: "run_rules tt ctx rules results s = (res3, s3)"
    using r1 r2 r3 by (simp add: split run_rules_append)
  have env1: "clock s1 = clock s" "isoformat s1 = isoformat s" "ticks s \<le> ticks s1"
    using run_rules_env [of tt ctx pre results s] r1 by simp_all
  have env3: "ticks s2 \<le> ticks s3"
    using run_rules_env [of tt ctx post res2 s2] r3 by simp
  have rows1: "filter (\<lambda>row. row_name row = r_name rule) (tbl_rules s1)
      = filter (\<lambda>row. row_name row = r_name rule) (tbl_rules s)"
    using run_rules_rows_other [OF pre_other, of tt results s] r1 by simp
  have rows3: "filter (\<lambda>row. row_name row = r_name rule) (tbl_rules s3)
      = filter (\<lambda>row. row_name row = r_name rule) (tbl_rules s2)"
    using run_rules_rows_other [OF post_other, of tt res2 s2] r3 by simp
  obtain err ares sa where run:
    "run_actions (r_actions rule) ctx (s1\<lparr>ticks := Suc (ticks s1)\<rparr>) [] = (err, ares, sa)"
    by (cases "run_actions (r_actions rule) ctx (s1\<lparr>ticks := Suc (ticks s1)\<rparr>) []") auto
  have tka: "Suc (ticks s1) \<le> ticks sa"
    using run_actions_ticks [of "s1\<lparr>ticks := Suc (ticks s1)\<rparr>" "r_actions rule" ctx "[]"] run
    by simp
  have tk2: "ticks s2 = ticks sa + 3"
    using process_rule_pass(6) [OF pass run, of tt res1] r2 by simp
  have rows2: "tbl_rules s2 =
      map (\<lambda>r. if row_name r = r_name rule
               then r\<lparr>row_trigger_count := sql_add_one (row_trigger_count r),
                      row_last_triggered := Some (isoformat s (clock s (Suc (Suc (ticks sa)))))\<rparr>
               else r)
        (tbl_rules s1)"
    using process_rule_pass(3) [OF pass run, of tt res1] r2 env1 by simp
  have "filter (\<lambda>row. row_name row = r_name rule) (tbl_rules s2)
      = map (\<lambda>r. r\<lparr>row_trigger_count := sql_add_one (row_trigger_count r),
                     row_last_triggered := Some (isoformat s (clock s (Suc (Suc (ticks sa)))))\<rparr>)
          (filter (\<lambda>row. row_name row = r_name rule) (tbl_rules s1))"
    unfolding rows2 by (rule filter_name_map_same) simp
  with rows1 rows3 have final: "filter (\<lambda>row. row_name row = r_name rule) (tbl_rules s3)
      = map (\<lambda>r. r\<lparr>row_trigger_count := sql_add_one (row_trigger_count r),
                     row_last_triggered := Some (isoformat s (clock s (Suc (Suc (ticks sa)))))\<rparr>)
          (filter (\<lambda>row. row_name row = r_name rule) (tbl_rules s))"
    by simp
  have "ticks s \<le> Suc (Suc (ticks sa))" "Suc (Suc (ticks sa)) < ticks s3"
    using env1(3) tka tk2 env3 by simp_all
  with final whole show ?thesis
    by auto
qed

lemma distinct_count_one:
  assumes "distinct xs" and "x \<in> set xs"
  shows "length (filter (\<lambda>y. y = x) xs) = 1"
  using assms
proof (induction xs)
  case Nil
  then show ?case by simp
next
  case (Cons y ys)
  show ?case
  proof (cases "y = x")
    case True
    then have "\<forall>z \<in> set ys. z \<noteq> x"
      using Cons.prems(1) by auto
    then have "filter (\<lambda>y. y = x) ys = []"
      by (simp add: filter_empty_conv)
    with True show ?thesis by simp
  next
    case False
    with Cons show ?thesis by simp
  qed
qed

lemma passing_rule_whole_pass_execs:
  assumes dist: "distinct (map r_name rules)" and mem: "rule \<in> set rules"
    and pass: "fst (evaluate_rule rule ctx)"
  shows "length (filter (\<lambda>e. ex_rule_name e = r_name rule)
            (tbl_executions (snd (run_rules tt ctx rules results s))))
     = Suc (length (filter (\<lambda>e. ex_rule_name e = r_name rule) (tbl_executions s)))"
proof -
  obtain new where new: "tbl_executions (snd (run_rules tt ctx rules results s)) = tbl_executions s @ new"
    "map ex_rule_name new = map r_name (filter (\<lambda>r. fst (evaluate_rule r ctx)) rules)"
    using run_rules_execs [of tt ctx rules results s] by blast
  have d: "distinct (map r_name (filter (\<lambda>r. fst (evaluate_rule r ctx)) rules))"
    using dist by (rule distinct_map_filter)
  have m: "r_name rule \<in> set (map r_name (filter (\<lambda>r. fst (evaluate_rule r ctx)) rules))"
    using mem pass by auto
  have "length (filter (\<lambda>e. ex_rule_name e = r_name rule) new)
      = length (filter (\<lambda>x. x = r_name rule) (map ex_rule_name new))"
    by (simp add: filter_map comp_def)
  also have "\<dots> = 1"
    unfolding new(2) using d m by (rule distinct_count_one)
  finally have "length (filter (\<lambda>e. ex_rule_name e = r_name rule) new) = 1" .
  with new(1) show ?thesis by simp
qed


lemma passing_rule_whole_pass:
  assumes wf: "wf_hub s" and sel: "rule \<in> set (selected_rules tt s)"
    and pass: "fst (evaluate_rule rule ctx)"
  shows "\<exists>row t. filter (\<lambda>r. row_name r = r_name rule) (tbl_rules s) = [row]
     \<and> filter (\<lambda>r. row_name r = r_name rule) (tbl_rules (snd (run_rule_engine ctx tt s)))
         = [row\<lparr>row_trigger_count := sql_add_one (row_trigger_count row),
                 row_last_triggered := Some (isoformat s (clock s t))\<rparr>]
     \<and> ticks s \<le> t \<and> t < ticks (snd (run_rule_engine ctx tt s))"
    and "length (filter (\<lambda>e. ex_rule_name e = r_name rule)
            (tbl_executions (snd (run_rule_engine ctx tt s))))
         = Suc (length (filter (\<lambda>e. ex_rule_name e = r_name rule) (tbl_executions s)))"
proof -
  have dist: "distinct (map r_name (selected_rules tt s))"
    using wf by (rule selected_rules_distinct)
  have "rule \<in> set (fst (get_active_rules s))"
    using sel selected_rules_subset by blast
  from active_rule_has_row [OF wf this] obtain row where row: "row \<in> set (tbl_rules s)"
    "row_name row = r_name rule"
    by blast
  have "filter (\<lambda>r. row_name r = row_name row) (tbl_rules s) = [row]"
    using wf row(1) by (simp add: wf_hub_def distinct_names_filter)
  then have one: "filter (\<lambda>r. row_name r = r_name rule) (tbl_rules s) = [row]"
    by (simp add: row(2))
  let ?s1 = "s\<lparr>ticks := ticks s + length (filter row_enabled (tbl_rules s))\<rparr>"
  obtain t where t: "ticks ?s1 \<le> t"
    "t < ticks (snd (run_rules tt ctx (selected_rules tt s) [] ?s1))"
    "filter (\<lambda>row. row_name row = r_name rule)
        (tbl_rules (snd (run_rules tt ctx (selected_rules tt s) [] ?s1)))
       = map (\<lambda>r. r\<lparr>row_trigger_count := sql_add_one (row_trigger_count r),
                     row_last_triggered := Some (isoformat ?s1 (clock ?s1 t))\<rparr>)
           (filter (\<lambda>row. row_name row = r_name rule) (tbl_rules ?s1))"
    using passing_rule_whole_pass_rows [OF dist sel pass, where s = ?s1 and tt = tt and results = "[]"]
    by blast
  show "\<exists>row t. filter (\<lambda>r. row_name r = r_name rule) (tbl_rules s) = [row]
     \<and> filter (\<lambda>r. row_name r = r_name rule) (tbl_rules (snd (run_rule_engine ctx tt s)))
         = [row\<lparr>row_trigger_count := sql_add_one (row_trigger_count row),
                 row_last_triggered := Some (isoformat s (clock s t))\<rparr>]
     \<and> ticks s \<le> t \<and> t < ticks (snd (run_rule_engine ctx tt s))"
    using one t by (auto simp: run_rule_engine_eq)
  show "length (filter (\<lambda>e. ex_rule_name e = r_name rule)
            (tbl_executions (snd (run_rule_engine ctx tt s))))
         = Suc (length (filter (\<lambda>e. ex_rule_name e = r_name rule) (tbl_executions s)))"
    using passing_rule_whole_pass_execs [OF dist sel pass, where s = ?s1 and tt = tt and results = "[]"]
    by (simp add: run_rule_engine_eq)
qed

section \<open>Rules that are skipped\<close>

text \<open>
  Claim C4. At the turn of a rule with at least one condition that does not pass, the
  loop of \<open>run_rule_engine\<close> appends one result entry with status \<open>skipped\<close> and
  the non-empty list of failure descriptions, and changes nothing else: the rule table,
  the execution table, the log table and the calls to collaborators are as before (only
  the clock has been read once), so no action has run. Over a whole pass on a well-formed
  store that selects the rule, the returned list holds that entry, no execution record
  is added under the name of the rule, and the row of the rule, with its trigger count
  and last-triggered time, is the same at the end of the pass.
\<close>

theorem failing_condition_skips_rule:
  assumes "\<exists>c \<in> set (r_conditions rule). evaluate c ctx \<noteq> Inr True"
  shows "process_rule tt ctx rule results s =
           (results @ [[(''rule'', RStr (r_name rule)), (''status'', RStr ''skipped''),
                        (''failed_conditions'', RFailed (snd (evaluate_rule rule ctx)))]],
            s\<lparr>ticks := Suc (ticks s)\<rparr>)
     \<and> snd (evaluate_rule rule ctx) \<noteq> []
     \<and> tbl_rules (snd (process_rule tt ctx rule results s)) = tbl_rules s
     \<and> tbl_executions (snd (process_rule tt ctx rule results s)) = tbl_executions s
     \<and> tbl_logs (snd (process_rule tt ctx rule results s)) = tbl_logs s
     \<and> emitted (snd (process_rule tt ctx rule results s)) = emitted s
     \<and> (wf_hub s0 \<and> rule \<in> set (selected_rules tt s0) \<longrightarrow>
          [(''rule'', RStr (r_name rule)), (''status'', RStr ''skipped''),
           (''failed_conditions'', RFailed (snd (evaluate_rule rule ctx)))]
            \<in> set (fst (run_rule_engine ctx tt s0))
          \<and> filter (\<lambda>row. row_name row = r_name rule) (tbl_rules (snd (run_rule_engine ctx tt s0)))
             = filter (\<lambda>row. row_name row = r_name rule) (tbl_rules s0)
          \<and> filter (\<lambda>e. ex_rule_name e = r_name rule) (tbl_executions (snd (run_rule_engine ctx tt s0)))
             = filter (\<lambda>e. ex_rule_name e = r_name rule) (tbl_executions s0))"
proof -
  have fails: "\<not> fst (evaluate_rule rule ctx)"
    using assms by (simp add: evaluate_rule_passed)
  then have nonempty: "snd (evaluate_rule rule ctx) \<noteq> []"
    by (simp add: evaluate_rule_passed_empty)
  have body: "process_rule tt ctx rule results s =
           (results @ [[(''rule'', RStr (r_name rule)), (''status'', RStr ''skipped''),
                        (''failed_conditions'', RFailed (snd (evaluate_rule rule ctx)))]],
            s\<lparr>ticks := Suc (ticks s)\<rparr>)"
    using fails by (rule process_rule_skip)
  have pass: "wf_hub s0 \<and> rule \<in> set (selected_rules tt s0) \<longrightarrow>
          [(''rule'', RStr (r_name rule)), (''status'', RStr ''skipped''),
           (''failed_conditions'', RFailed (snd (evaluate_rule rule ctx)))]
            \<in> set (fst (run_rule_engine ctx tt s0))
          \<and> filter (\<lambda>row. row_name row = r_name rule) (tbl_rules (snd (run_rule_engine ctx tt s0)))
             = filter (\<lambda>row. row_name row = r_name rule) (tbl_rules s0)
          \<and> filter (\<lambda>e. ex_rule_name e = r_name rule) (tbl_executions (snd (run_rule_engine ctx tt s0)))
             = filter (\<lambda>e. ex_rule_name e = r_name rule) (tbl_executions s0)"
    using skipped_rule_whole_pass [of s0 rule tt ctx] fails by blast
  from body nonempty pass show ?thesis
    by simp
qed

theorem failing_condition_skips_rule_witness:
  "evaluate (hd (r_conditions temp_alert)) (reading 20) = Inr False
   \<and> wf_hub test_hub
   \<and> selected_rules (Some ''sensor'') test_hub = [temp_alert]
   \<and> ticks test_hub = 1
   \<and> run_rule_engine (reading 20) (Some ''sensor'') test_hub =
       ([[(''rule'', RStr ''temp_alert''), (''status'', RStr ''skipped''),
          (''failed_conditions'', RFailed [CondFailed ''sensor.t1.value'' ''>'' (VInt 30)])]],
        test_hub\<lparr>ticks := 3\<rparr>)"
proof -
  have cond: "evaluate (hd (r_conditions temp_alert)) (reading 20) = Inr False"
    by (simp add: temp_alert_def reading_def evaluate_def resolve_path_def dict_get_def OP_MAP_def)
  have ex: "\<exists>c \<in> set (r_conditions temp_alert). evaluate c (reading 20) \<noteq> Inr True"
    using cond by (simp add: temp_alert_def)
  have wf: "wf_hub test_hub"
    by (simp add: wf_hub_def test_hub_def add_rule_def in_int64_def init_hub_def hub_log_def
        utcnow_def temp_alert_def)
  have sel: "selected_rules (Some ''sensor'') test_hub = [temp_alert]"
    by (simp add: selected_rules_def by_trigger_type_def active_rules_eq test_hub_def add_rule_def
        in_int64_def init_hub_def hub_log_def utcnow_def rule_of_row_def temp_alert_def)
  have state: "ticks test_hub = 1"
    "ticks test_hub + length (filter row_enabled (tbl_rules test_hub)) = 2"
    by (simp_all add: test_hub_def add_rule_def in_int64_def init_hub_def hub_log_def utcnow_def
        temp_alert_def)
  have eng: "run_rule_engine (reading 20) (Some ''sensor'') test_hub
      = process_rule (Some ''sensor'') (reading 20) temp_alert [] (test_hub\<lparr>ticks := 2\<rparr>)"
    by (simp add: run_rule_engine_eq sel state(2) split: prod.splits)
  have fl: "snd (evaluate_rule temp_alert (reading 20)) = [CondFailed ''sensor.t1.value'' ''>'' (VInt 30)]"
    using cond by (simp add: evaluate_rule_failures failure_of_def temp_alert_def)
  have name: "r_name temp_alert = ''temp_alert''"
    by (simp add: temp_alert_def)
  from failing_condition_skips_rule
         [OF ex, of "Some ''sensor''" "[]" "test_hub\<lparr>ticks := 2\<rparr>" test_hub]
  have "process_rule (Some ''sensor'') (reading 20) temp_alert [] (test_hub\<lparr>ticks := 2\<rparr>) =
           ([] @ [[(''rule'', RStr (r_name temp_alert)), (''status'', RStr ''skipped''),
                   (''failed_conditions'', RFailed (snd (evaluate_rule temp_alert (reading 20))))]],
            test_hub\<lparr>ticks := 2\<rparr>\<lparr>ticks := Suc (ticks (test_hub\<lparr>ticks := 2\<rparr>))\<rparr>)"
    by blast
  then have "run_rule_engine (reading 20) (Some ''sensor'') test_hub =
       ([[(''rule'', RStr ''temp_alert''), (''status'', RStr ''skipped''),
          (''failed_conditions'', RFailed [CondFailed ''sensor.t1.value'' ''>'' (VInt 30)])]],
        test_hub\<lparr>ticks := 3\<rparr>)"
    by (simp add: eng fl name)
  with cond wf sel state(1) show ?thesis
    by simp
qed

section \<open>Rules that run\<close>

lemma engine_single_rule:
  assumes "selected_rules tt s = [r]"
  shows "run_rule_engine ctx tt s
     = process_rule tt ctx r [] (s\<lparr>ticks := ticks s + length (filter row_enabled (tbl_rules s))\<rparr>)"
  by (simp add: run_rule_engine_eq assms split: prod.splits)

lemma hot_actions:
  "run_actions (r_actions temp_alert) ctx s []
     = (None, [VDict [(''logged'', VStr ''hot!'')]],
        hub_log ''INFO'' (RuleAction (VStr ''hot!'')) ctx s)"
  by (simp add: temp_alert_def execute_action_def dict_get_def Let_def)

lemma hot_pass:
  assumes sel: "selected_rules tt s = [r]"
    and one: "length (filter row_enabled (tbl_rules s)) = 1"
    and acts: "r_actions r = r_actions temp_alert"
    and ok: "fst (evaluate_rule r ctx)"
  shows "tbl_rules (snd (run_rule_engine ctx tt s)) =
      map (\<lambda>row. if row_name row = r_name r
               then row\<lparr>row_trigger_count := sql_add_one (row_trigger_count row),
                        row_last_triggered := Some (isoformat s (clock s (ticks s + 5)))\<rparr>
               else row)
        (tbl_rules s)"
    and "fst (run_rule_engine ctx tt s) =
      [[(''rule'', RStr (r_name r)), (''status'', RStr ''ok''),
        (''actions'', RActions [VDict [(''logged'', VStr ''hot!'')]]),
        (''duration_ms'', RDuration (clock s (ticks s + 3) - clock s (ticks s + 1)))]]"
    and "ticks (snd (run_rule_engine ctx tt s)) = ticks s + 6"
    and "clock (snd (run_rule_engine ctx tt s)) = clock s"
    and "isoformat (snd (run_rule_engine ctx tt s)) = isoformat s"
proof -
  let ?s1 = "s\<lparr>ticks := ticks s + 1\<rparr>"
  let ?s2 = "hub_log ''INFO'' (RuleAction (VStr ''hot!'')) ctx (?s1\<lparr>ticks := Suc (ticks ?s1)\<rparr>)"
  have eng: "run_rule_engine ctx tt s = process_rule tt ctx r [] ?s1"
    using engine_single_rule [OF sel, of ctx] one by simp
  have run: "run_actions (r_actions r) ctx (?s1\<lparr>ticks := Suc (ticks ?s1)\<rparr>) []
      = (None, [VDict [(''logged'', VStr ''hot!'')]], ?s2)"
    unfolding acts by (rule hot_actions)
  have arith: "Suc (Suc (ticks s + 3)) = ticks s + 5" "ticks s + 3 + 3 = ticks s + 6"
    by simp_all
  have tick2: "ticks ?s2 = ticks s + 3"
    by (simp add: hub_log_frame)
  have env: "isoformat ?s1 = isoformat s" "clock ?s1 = clock s" "tbl_rules ?s1 = tbl_rules s"
    "ticks ?s1 = ticks s + 1"
    by simp_all
  note facts = process_rule_pass [OF ok run, of tt "[]", unfolded tick2, unfolded env arith]
  show "tbl_rules (snd (run_rule_engine ctx tt s)) =
      map (\<lambda>row. if row_name row = r_name r
               then row\<lparr>row_trigger_count := sql_add_one (row_trigger_count row),
                        row_last_triggered := Some (isoformat s (clock s (ticks s + 5)))\<rparr>
               else row)
        (tbl_rules s)"
    unfolding eng by (rule facts(3))
  show "fst (run_rule_engine ctx tt s) =
      [[(''rule'', RStr (r_name r)), (''status'', RStr ''ok''),
        (''actions'', RActions [VDict [(''logged'', VStr ''hot!'')]]),
        (''duration_ms'', RDuration (clock s (ticks s + 3) - clock s (ticks s + 1)))]]"
    unfolding eng using facts(1) by simp
  show "ticks (snd (run_rule_engine ctx tt s)) = ticks s + 6"
    unfolding eng by (rule facts(6))
  show "clock (snd (run_rule_engine ctx tt s)) = clock s"
    using process_rule_env(1) [of tt ctx r "[]" ?s1] by (simp add: eng)
  show "isoformat (snd (run_rule_engine ctx tt s)) = isoformat s"
    using process_rule_env(2) [of tt ctx r "[]" ?s1] by (simp add: eng)
qed

lemma test_hub_state:
  "ticks test_hub = 1"
  "clock test_hub = demo_clock"
  "isoformat test_hub = demo_iso"
  "tbl_executions test_hub = []"
  "tbl_rules test_hub = [\<lparr>row_name = ''temp_alert'', row_definition = temp_alert,
      row_enabled = True, row_priority = 5, row_created_at = ''2024-01-01T00:00:00'',
      row_last_triggered = None, row_trigger_count = 0\<rparr>]"
  by (simp_all add: test_hub_def add_rule_def in_int64_def init_hub_def hub_log_def utcnow_def
      temp_alert_def)

lemma wf_test_hub: "wf_hub test_hub"
  by (simp add: wf_hub_def test_hub_state) (simp add: temp_alert_def)

lemma test_hub_selected:
  "selected_rules None test_hub = [temp_alert]"
  "selected_rules (Some ''sensor'') test_hub = [temp_alert]"
  by (simp_all add: selected_rules_def by_trigger_type_def active_rules_eq test_hub_state
      rule_of_row_def) (simp_all add: temp_alert_def)

lemma temp_alert_passes:
  "map (\<lambda>c. evaluate c (reading 40)) (r_conditions temp_alert) = [Inr True]"
  by (simp add: temp_alert_def reading_def evaluate_def resolve_path_def dict_get_def OP_MAP_def)

text \<open>
  Claim C5, as the code has it. At the turn of a rule whose conditions all pass, the loop
  of \<open>run_rule_engine\<close> appends exactly one execution record: it carries the name of
  the rule, the trigger type given to the pass or \<open>manual\<close> when none (or an empty one)
  was given, the context without its \<open>credentials\<close> entry, the status \<open>ok\<close> or
  \<open>error\<close> (never \<open>skipped\<close>), the error if an action raised, and the duration
  between the two clock readings around the actions, which is also the duration of the
  result entry. In the rule table every row of that name has its last-triggered time set
  to the latest clock reading, and its trigger count raised by one as long as the count
  is an integer of the store (below \<open>2 ^ 63\<close>); a count that has left the integers of
  the store stays as it is. The other rows are as before. Over a whole pass on a
  well-formed store that selects the rule, there is exactly one row of that name, it
  ends with that count and a last-triggered time read during the pass, and exactly one
  more execution record has the name of the rule.
\<close>

theorem passing_rule_recorded_once:
  assumes pass: "\<forall>c \<in> set (r_conditions rule). evaluate c ctx = Inr True"
    and run: "run_actions (r_actions rule) ctx (snd (utcnow s)) [] = (err, ares, s2)"
  shows "tbl_executions (snd (process_rule tt ctx rule results s)) =
      tbl_executions s @
        [\<lparr>ex_rule_name = r_name rule,
          ex_triggered_by = (case tt of None \<Rightarrow> ''manual'' | Some t \<Rightarrow> if t = [] then ''manual'' else t),
          ex_context = filter (\<lambda>kv. fst kv \<noteq> ''credentials'') ctx,
          ex_result = (if err = None then ''ok'' else ''error''), ex_error = err,
          ex_ts = isoformat s (clock s (Suc (ticks s2))),
          ex_duration_ms = clock s (ticks s2) - clock s (ticks s)\<rparr>]
    \<and> tbl_rules (snd (process_rule tt ctx rule results s)) =
        map (\<lambda>r. if row_name r = r_name rule
                 then r\<lparr>row_trigger_count :=
                          (if row_trigger_count r < 2 ^ 63 then row_trigger_count r + 1
                           else row_trigger_count r),
                        row_last_triggered := Some (isoformat s (clock s
                          (ticks (snd (process_rule tt ctx rule results s)) - 1)))\<rparr>
                 else r)
          (tbl_rules s)
    \<and> fst (process_rule tt ctx rule results s) =
        results @ [[(''rule'', RStr (r_name rule)),
                    (''status'', RStr (if err = None then ''ok'' else ''error'')),
                    (''actions'', RActions ares),
                    (''duration_ms'', RDuration (clock s (ticks s2) - clock s (ticks s)))]]
    \<and> (wf_hub s0 \<and> rule \<in> set (selected_rules tt s0) \<longrightarrow>
         (\<exists>row t. filter (\<lambda>r. row_name r = r_name rule) (tbl_rules s0) = [row]
            \<and> filter (\<lambda>r. row_name r = r_name rule) (tbl_rules (snd (run_rule_engine ctx tt s0)))
                = [row\<lparr>row_trigger_count :=
                          (if row_trigger_count row < 2 ^ 63 then row_trigger_count row + 1
                           else row_trigger_count row),
                        row_last_triggered := Some (isoformat s0 (clock s0 t))\<rparr>]
            \<and> ticks s0 \<le> t \<and> t < ticks (snd (run_rule_engine ctx tt s0)))
         \<and> length (filter (\<lambda>e. ex_rule_name e = r_name rule)
              (tbl_executions (snd (run_rule_engine ctx tt s0))))
            = Suc (length (filter (\<lambda>e. ex_rule_name e = r_name rule) (tbl_executions s0))))"
proof -
  have ok: "fst (evaluate_rule rule ctx)"
    using pass by (simp add: evaluate_rule_passed)
  have run': "run_actions (r_actions rule) ctx (s\<lparr>ticks := Suc (ticks s)\<rparr>) [] = (err, ares, s2)"
    using run by (simp add: utcnow_def)
  have last_tick: "ticks (snd (process_rule tt ctx rule results s)) - 1 = Suc (Suc (ticks s2))"
    using process_rule_pass(6) [OF ok run', of tt results] by simp
  have execs: "tbl_executions (snd (process_rule tt ctx rule results s)) =
      tbl_executions s @
        [\<lparr>ex_rule_name = r_name rule,
          ex_triggered_by = (case tt of None \<Rightarrow> ''manual'' | Some t \<Rightarrow> if t = [] then ''manual'' else t),
          ex_context = filter (\<lambda>kv. fst kv \<noteq> ''credentials'') ctx,
          ex_result = (if err = None then ''ok'' else ''error''), ex_error = err,
          ex_ts = isoformat s (clock s (Suc (ticks s2))),
          ex_duration_ms = clock s (ticks s2) - clock s (ticks s)\<rparr>]"
    using process_rule_pass(2) [OF ok run', of tt results] by (simp add: trigger_label_def)
  have rows: "tbl_rules (snd (process_rule tt ctx rule results s)) =
        map (\<lambda>r. if row_name r = r_name rule
                 then r\<lparr>row_trigger_count := sql_add_one (row_trigger_count r),
                        row_last_triggered := Some (isoformat s (clock s
                          (ticks (snd (process_rule tt ctx rule results s)) - 1)))\<rparr>
                 else r)
          (tbl_rules s)"
    using process_rule_pass(3) [OF ok run', of tt results] by (simp only: last_tick)
  have entry: "fst (process_rule tt ctx rule results s) =
        results @ [[(''rule'', RStr (r_name rule)),
                    (''status'', RStr (if err = None then ''ok'' else ''error'')),
                    (''actions'', RActions ares),
                    (''duration_ms'', RDuration (clock s (ticks s2) - clock s (ticks s)))]]"
    by (rule process_rule_pass(1) [OF ok run'])
  have whole: "wf_hub s0 \<and> rule \<in> set (selected_rules tt s0) \<longrightarrow>
         (\<exists>row t. filter (\<lambda>r. row_name r = r_name rule) (tbl_rules s0) = [row]
            \<and> filter (\<lambda>r. row_name r = r_name rule) (tbl_rules (snd (run_rule_engine ctx tt s0)))
                = [row\<lparr>row_trigger_count := sql_add_one (row_trigger_count row),
                        row_last_triggered := Some (isoformat s0 (clock s0 t))\<rparr>]
            \<and> ticks s0 \<le> t \<and> t < ticks (snd (run_rule_engine ctx tt s0)))
         \<and> length (filter (\<lambda>e. ex_rule_name e = r_name rule)
              (tbl_executions (snd (run_rule_engine ctx tt s0))))
            = Suc (length (filter (\<lambda>e. ex_rule_name e = r_name rule) (tbl_executions s0)))"
    using passing_rule_whole_pass [of s0 rule tt ctx] ok by blast
  from execs rows entry whole show ?thesis
    unfolding sql_add_one_def by (intro conjI)
qed

theorem passing_rule_recorded_once_witness:
  "map (\<lambda>c. evaluate c (reading 40)) (r_conditions temp_alert) = [Inr True]
   \<and> wf_hub test_hub
   \<and> selected_rules None test_hub = [temp_alert]
   \<and> ticks test_hub = 1
   \<and> fst (run_rule_engine (reading 40) None test_hub) =
       [[(''rule'', RStr ''temp_alert''), (''status'', RStr ''ok''),
         (''actions'', RActions [VDict [(''logged'', VStr ''hot!'')]]),
         (''duration_ms'', RDuration 2000)]]
   \<and> map (\<lambda>e. (ex_rule_name e, ex_triggered_by e, ex_result e, ex_error e, ex_ts e, ex_duration_ms e))
         (tbl_executions (snd (run_rule_engine (reading 40) None test_hub)))
       = [(''temp_alert'', ''manual'', ''ok'', None, demo_iso 5000, 2000)]
   \<and> map (\<lambda>r. (row_name r, row_trigger_count r, row_last_triggered r))
         (tbl_rules (snd (run_rule_engine (reading 40) None test_hub)))
       = [(''temp_alert'', 1, Some (demo_iso 6000))]"
proof -
  let ?s1 = "test_hub\<lparr>ticks := 2\<rparr>"
  define s2 where "s2 = hub_log ''INFO'' (RuleAction (VStr ''hot!'')) (reading 40) (snd (utcnow ?s1))"
  have pass: "\<forall>c \<in> set (r_conditions temp_alert). evaluate c (reading 40) = Inr True"
    by (simp add: temp_alert_def reading_def evaluate_def resolve_path_def dict_get_def OP_MAP_def)
  have run: "run_actions (r_actions temp_alert) (reading 40) (snd (utcnow ?s1)) []
      = (None, [VDict [(''logged'', VStr ''hot!'')]], s2)"
    unfolding s2_def by (rule hot_actions)
  have name: "r_name temp_alert = ''temp_alert''"
    by (simp add: temp_alert_def)
  have tick2: "ticks s2 = 4"
    by (simp add: s2_def hub_log_frame utcnow_def)
  have "ticks test_hub + length (filter row_enabled (tbl_rules test_hub)) = 2"
    by (simp add: test_hub_state)
  then have eng: "run_rule_engine (reading 40) None test_hub
      = process_rule None (reading 40) temp_alert [] ?s1"
    using engine_single_rule [OF test_hub_selected(1), of "reading 40"]
    by (simp only:)
  note claim = passing_rule_recorded_once [OF pass run, of None "[]" test_hub]
  have entry: "fst (process_rule None (reading 40) temp_alert [] ?s1) =
       [[(''rule'', RStr ''temp_alert''), (''status'', RStr ''ok''),
         (''actions'', RActions [VDict [(''logged'', VStr ''hot!'')]]),
         (''duration_ms'', RDuration 2000)]]"
    using claim by (simp add: test_hub_state tick2 name demo_clock_def)
  have execs: "map (\<lambda>e. (ex_rule_name e, ex_triggered_by e, ex_result e, ex_error e, ex_ts e, ex_duration_ms e))
         (tbl_executions (snd (process_rule None (reading 40) temp_alert [] ?s1)))
       = [(''temp_alert'', ''manual'', ''ok'', None, demo_iso 5000, 2000)]"
    using claim by (simp add: test_hub_state tick2 name demo_clock_def)
  have last_tick: "ticks (snd (process_rule None (reading 40) temp_alert [] ?s1)) - 1 = 6"
  proof -
    have ok: "fst (evaluate_rule temp_alert (reading 40))"
      using pass by (simp add: evaluate_rule_passed)
    have "run_actions (r_actions temp_alert) (reading 40) (?s1\<lparr>ticks := Suc (ticks ?s1)\<rparr>) []
      = (None, [VDict [(''logged'', VStr ''hot!'')]], s2)"
      using run by (simp add: utcnow_def)
    from process_rule_pass(6) [OF ok this, of None "[]"] tick2 show ?thesis
      by simp
  qed
  have "tbl_rules (snd (process_rule None (reading 40) temp_alert [] ?s1)) =
        map (\<lambda>r. if row_name r = r_name temp_alert
                 then r\<lparr>row_trigger_count :=
                          (if row_trigger_count r < 2 ^ 63 then row_trigger_count r + 1
                           else row_trigger_count r),
                        row_last_triggered := Some (isoformat ?s1 (clock ?s1
                          (ticks (snd (process_rule None (reading 40) temp_alert [] ?s1)) - 1)))\<rparr>
                 else r)
          (tbl_rules ?s1)"
    by (rule claim [THEN conjunct2, THEN conjunct1])
  then have "tbl_rules (snd (process_rule None (reading 40) temp_alert [] ?s1)) =
        map (\<lambda>r. if row_name r = r_name temp_alert
                 then r\<lparr>row_trigger_count :=
                          (if row_trigger_count r < 2 ^ 63 then row_trigger_count r + 1
                           else row_trigger_count r),
                        row_last_triggered := Some (isoformat ?s1 (clock ?s1 6))\<rparr>
                 else r)
          (tbl_rules ?s1)"
    unfolding last_tick .
  then have "tbl_rules (snd (process_rule None (reading 40) temp_alert [] ?s1)) =
        map (\<lambda>r. if row_name r = ''temp_alert''
                 then r\<lparr>row_trigger_count :=
                          (if row_trigger_count r < 2 ^ 63 then row_trigger_count r + 1
                           else row_trigger_count r),
                        row_last_triggered := Some (demo_iso 6000)\<rparr>
                 else r)
          (tbl_rules test_hub)"
    by (simp add: name test_hub_state demo_clock_def)
  then have counts: "map (\<lambda>r. (row_name r, row_trigger_count r, row_last_triggered r))
         (tbl_rules (snd (process_rule None (reading 40) temp_alert [] ?s1)))
       = [(''temp_alert'', 1, Some (demo_iso 6000))]"
    by (simp add: test_hub_state)
  from temp_alert_passes wf_test_hub test_hub_selected(1) test_hub_state(1) entry execs counts
  show ?thesis
    by (simp add: eng)
qed

text \<open>
  The claim as stated does not hold for every stored count: a rule stored with the
  largest trigger count of the store, \<open>2 ^ 63 - 1\<close>, runs twice. The first pass
  takes the count out of the integers of the store, and the second pass, which runs the
  rule with status \<open>ok\<close>, leaves the count where it was.
\<close>

theorem saturated_count_counterexample:
  "fst (add_rule worn_alert (init_hub demo_clock demo_iso demo_sleep_range)) = Inr worn_alert
   \<and> map (\<lambda>c. evaluate c (reading 40)) (r_conditions worn_alert) = [Inr True]
   \<and> map row_trigger_count (tbl_rules worn_hub) = [9223372036854775807]
   \<and> map row_trigger_count (tbl_rules (snd (run_rule_engine (reading 40) None worn_hub)))
       = [9223372036854775808]
   \<and> map (\<lambda>e. map_of e ''status'')
       (fst (run_rule_engine (reading 40) None (snd (run_rule_engine (reading 40) None worn_hub))))
       = [Some (RStr ''ok'')]
   \<and> map row_trigger_count
       (tbl_rules (snd (run_rule_engine (reading 40) None
          (snd (run_rule_engine (reading 40) None worn_hub)))))
       = [9223372036854775808]"
proof -
  define s1 where "s1 = snd (run_rule_engine (reading 40) None worn_hub)"
  define r1 where "r1 = worn_alert\<lparr>r_last_triggered := Some (demo_iso 6000),
      r_trigger_count := 9223372036854775808\<rparr>"
  have stored: "fst (add_rule worn_alert (init_hub demo_clock demo_iso demo_sleep_range)) = Inr worn_alert"
    by (simp add: add_rule_def in_int64_def worn_alert_def temp_alert_def Let_def)
  have rows0: "tbl_rules worn_hub = [\<lparr>row_name = ''temp_alert'', row_definition = worn_alert,
      row_enabled = True, row_priority = 5, row_created_at = ''2024-01-01T00:00:00'',
      row_last_triggered = None, row_trigger_count = 9223372036854775807\<rparr>]"
    by (simp add: worn_hub_def add_rule_def in_int64_def init_hub_def hub_log_def utcnow_def
        worn_alert_def temp_alert_def)
  have state0: "ticks worn_hub = 1" "clock worn_hub = demo_clock" "isoformat worn_hub = demo_iso"
    by (simp_all add: worn_hub_def add_rule_def in_int64_def init_hub_def hub_log_def utcnow_def
        worn_alert_def temp_alert_def)
  have sel0: "selected_rules None worn_hub = [worn_alert]"
    by (simp add: selected_rules_def by_trigger_type_def active_rules_eq rows0 rule_of_row_def)
      (simp add: worn_alert_def temp_alert_def)
  have acts: "r_actions worn_alert = r_actions temp_alert" "r_actions r1 = r_actions temp_alert"
    by (simp_all add: r1_def worn_alert_def)
  have names: "r_name worn_alert = ''temp_alert''" "r_name r1 = ''temp_alert''"
    by (simp_all add: r1_def worn_alert_def temp_alert_def)
  have passes: "map (\<lambda>c. evaluate c (reading 40)) (r_conditions worn_alert) = [Inr True]"
    using temp_alert_passes by (simp add: worn_alert_def)
  have ok0: "fst (evaluate_rule worn_alert (reading 40))"
    using temp_alert_passes by (simp add: evaluate_rule_def evaluate_rule_passed worn_alert_def temp_alert_def)
  have ok1: "fst (evaluate_rule r1 (reading 40))"
    using temp_alert_passes by (simp add: evaluate_rule_def evaluate_rule_passed r1_def worn_alert_def temp_alert_def)
  have rows1: "tbl_rules s1 = [\<lparr>row_name = ''temp_alert'', row_definition = worn_alert,
      row_enabled = True, row_priority = 5, row_created_at = ''2024-01-01T00:00:00'',
      row_last_triggered = Some (demo_iso 6000), row_trigger_count = 9223372036854775808\<rparr>]"
    unfolding s1_def
    by (simp add: hot_pass(1) [OF sel0 _ acts(1) ok0] rows0 names state0 sql_add_one_def demo_clock_def)
  have sel1: "selected_rules None s1 = [r1]"
    by (simp add: selected_rules_def by_trigger_type_def active_rules_eq rows1 rule_of_row_def r1_def
        worn_alert_def temp_alert_def)
  have status: "map (\<lambda>e. map_of e ''status'') (fst (run_rule_engine (reading 40) None s1))
       = [Some (RStr ''ok'')]"
    by (simp add: hot_pass(2) [OF sel1 _ acts(2) ok1] rows1)
  have rows2: "map row_trigger_count (tbl_rules (snd (run_rule_engine (reading 40) None s1)))
       = [9223372036854775808]"
    by (simp add: hot_pass(1) [OF sel1 _ acts(2) ok1] rows1 names sql_add_one_def)
  from stored passes rows0 rows1 status rows2 show ?thesis
    unfolding s1_def by simp
qed

section \<open>The first failing action\<close>

lemma process_rule_actions_cong:
  assumes "run_actions acts ctx (s\<lparr>ticks := Suc (ticks s)\<rparr>) []
         = run_actions (r_actions rule) ctx (s\<lparr>ticks := Suc (ticks s)\<rparr>) []"
  shows "process_rule tt ctx (rule\<lparr>r_actions := acts\<rparr>) results s = process_rule tt ctx rule results s"
  using assms by (simp add: process_rule_def evaluate_rule_def utcnow_def Let_def split_def cong: option.case_cong)

text \<open>
  Claim C3, as the code has it. For a rule whose conditions all pass, the actions run in
  declared order. If every action succeeds, the result entry has status \<open>ok\<close> and its
  action list holds the result of every action, in order. If an action raises (an unknown
  tag included) after the actions before it succeeded, the result entry has status
  \<open>error\<close> and its action list holds exactly the results of the actions before the
  failing one; the causing error is kept in the error field of the execution record of
  the rule; and the whole outcome, result and state, is the one of the rule cut after the
  failing action, so no later action runs. The outcome of an action depends on the state
  only through the handler registry and the range of \<open>time.sleep\<close>, which no action
  changes, so it is read in the state at the start of the turn.
\<close>

theorem first_failing_action_stops_rule:
  assumes pass: "\<forall>c \<in> set (r_conditions rule). evaluate c ctx = Inr True"
  shows "((\<forall>b \<in> set (r_actions rule). \<not> isl (fst (execute_action b ctx s))) \<longrightarrow>
          (\<exists>d. fst (process_rule tt ctx rule results s) =
             results @ [[(''rule'', RStr (r_name rule)), (''status'', RStr ''ok''),
                         (''actions'', RActions (map (\<lambda>b. projr (fst (execute_action b ctx s)))
                                                   (r_actions rule))),
                         (''duration_ms'', RDuration d)]])
          \<and> ex_result (last (tbl_executions (snd (process_rule tt ctx rule results s)))) = ''ok''
          \<and> ex_error (last (tbl_executions (snd (process_rule tt ctx rule results s)))) = None)
     \<and> (\<forall>pre a post e.
           r_actions rule = pre @ a # post
           \<and> (\<forall>b \<in> set pre. \<not> isl (fst (execute_action b ctx s)))
           \<and> fst (execute_action a ctx s) = Inl e \<longrightarrow>
          (\<exists>d. fst (process_rule tt ctx rule results s) =
             results @ [[(''rule'', RStr (r_name rule)), (''status'', RStr ''error''),
                         (''actions'', RActions (map (\<lambda>b. projr (fst (execute_action b ctx s))) pre)),
                         (''duration_ms'', RDuration d)]])
          \<and> ex_result (last (tbl_executions (snd (process_rule tt ctx rule results s)))) = ''error''
          \<and> ex_error (last (tbl_executions (snd (process_rule tt ctx rule results s)))) = Some e
          \<and> process_rule tt ctx rule results s
              = process_rule tt ctx (rule\<lparr>r_actions := pre @ [a]\<rparr>) results s)"
proof -
  let ?s1 = "s\<lparr>ticks := Suc (ticks s)\<rparr>"
  have ok: "fst (evaluate_rule rule ctx)"
    using pass by (simp add: evaluate_rule_passed)
  have out: "fst (execute_action b ctx s) = action_outcome (service_handlers ?s1) (sleep_overflows ?s1) b" for b
    by (simp add: execute_action_outcome)
  obtain err ares s2 where run: "run_actions (r_actions rule) ctx ?s1 [] = (err, ares, s2)"
    by (cases "run_actions (r_actions rule) ctx ?s1 []") auto
  note entry = process_rule_pass(1) [OF ok run, of tt results]
  note execs = process_rule_pass(2) [OF ok run, of tt results]
  have all_ok: ?thesis if none: "\<forall>b \<in> set (r_actions rule). \<not> isl (fst (execute_action b ctx s))"
    and split: "\<not> (\<exists>pre a post e. r_actions rule = pre @ a # post
           \<and> (\<forall>b \<in> set pre. \<not> isl (fst (execute_action b ctx s)))
           \<and> fst (execute_action a ctx s) = Inl e)"
  proof -
    have "\<forall>b \<in> set (r_actions rule). \<not> isl (action_outcome (service_handlers ?s1) (sleep_overflows ?s1) b)"
      using none out by simp
    from run_actions_ok [OF this, of ctx "[]"] run
    have "err = None" "ares = map (\<lambda>b. projr (fst (execute_action b ctx s))) (r_actions rule)"
      by (simp_all add: out)
    with entry execs split show ?thesis
      by auto
  qed
  have stops: "(\<exists>d. fst (process_rule tt ctx rule results s) =
             results @ [[(''rule'', RStr (r_name rule)), (''status'', RStr ''error''),
                         (''actions'', RActions (map (\<lambda>b. projr (fst (execute_action b ctx s))) pre)),
                         (''duration_ms'', RDuration d)]])
          \<and> ex_result (last (tbl_executions (snd (process_rule tt ctx rule results s)))) = ''error''
          \<and> ex_error (last (tbl_executions (snd (process_rule tt ctx rule results s)))) = Some e
          \<and> process_rule tt ctx rule results s
              = process_rule tt ctx (rule\<lparr>r_actions := pre @ [a]\<rparr>) results s"
    if acts: "r_actions rule = pre @ a # post"
      and before: "\<forall>b \<in> set pre. \<not> isl (fst (execute_action b ctx s))"
      and fail: "fst (execute_action a ctx s) = Inl e"
    for pre a post e
  proof -
    have before': "\<forall>b \<in> set pre. \<not> isl (action_outcome (service_handlers ?s1) (sleep_overflows ?s1) b)"
      using before out by simp
    have fail': "action_outcome (service_handlers ?s1) (sleep_overflows ?s1) a = Inl e"
      using fail out by simp
    note stop = run_actions_stop [OF before' fail', of post ctx "[]"]
    have err: "err = Some e" and ares: "ares = map (\<lambda>b. projr (fst (execute_action b ctx s))) pre"
      using stop(2,3) run acts by (simp_all add: out)
    have same: "process_rule tt ctx (rule\<lparr>r_actions := pre @ [a]\<rparr>) results s
        = process_rule tt ctx rule results s"
      by (rule process_rule_actions_cong) (simp add: acts stop(1))
    from entry execs err ares same show ?thesis
      by simp
  qed
  show ?thesis
  proof (cases "\<exists>pre a post e. r_actions rule = pre @ a # post
           \<and> (\<forall>b \<in> set pre. \<not> isl (fst (execute_action b ctx s)))
           \<and> fst (execute_action a ctx s) = Inl e")
    case True
    then obtain pre a post e where first: "r_actions rule = pre @ a # post"
      "\<forall>b \<in> set pre. \<not> isl (fst (execute_action b ctx s))" "fst (execute_action a ctx s) = Inl e"
      by blast
    have "a \<in> set (r_actions rule)" using first(1) by simp
    then have not_all: "\<not> (\<forall>b \<in> set (r_actions rule). \<not> isl (fst (execute_action b ctx s)))"
      using first(3) by (metis sum.disc(1))
    from stops not_all show ?thesis
      by blast
  next
    case False
    show ?thesis
    proof (cases "\<forall>b \<in> set (r_actions rule). \<not> isl (fst (execute_action b ctx s))")
      case True
      from all_ok [OF True False] show ?thesis .
    next
      case no: False
      with False show ?thesis by blast
    qed
  qed
qed

theorem first_failing_action_stops_rule_witness:
  "map (\<lambda>c. evaluate c (reading 40)) (r_conditions faulty_alert) = [Inr True]
   \<and> fst (execute_action \<lparr>a_type = ''explode'', a_target = None, a_params = []\<rparr> (reading 40) faulty_hub)
       = Inl (UnknownActionType ''explode'')
   \<and> map_of (last (fst (process_rule None (reading 40) faulty_alert [] faulty_hub))) ''status''
       = Some (RStr ''error'')
   \<and> map_of (last (fst (process_rule None (reading 40) faulty_alert [] faulty_hub))) ''actions''
       = Some (RActions [VDict [(''logged'', VStr ''hot!'')]])
   \<and> ex_error (last (tbl_executions (snd (process_rule None (reading 40) faulty_alert [] faulty_hub))))
       = Some (UnknownActionType ''explode'')
   \<and> process_rule None (reading 40) faulty_alert [] faulty_hub
       = process_rule None (reading 40)
           (faulty_alert\<lparr>r_actions :=
              [\<lparr>a_type = ''log_message'', a_target = None, a_params = [(''message'', VStr ''hot!'')]\<rparr>,
               \<lparr>a_type = ''explode'', a_target = None, a_params = []\<rparr>]\<rparr>)
           [] faulty_hub"
proof -
  have passes: "map (\<lambda>c. evaluate c (reading 40)) (r_conditions faulty_alert) = [Inr True]"
    by (simp add: faulty_alert_def temp_alert_def reading_def evaluate_def resolve_path_def dict_get_def OP_MAP_def)
  let ?log = "\<lparr>a_type = ''log_message'', a_target = None, a_params = [(''message'', VStr ''hot!'')]\<rparr>"
  let ?bad = "\<lparr>a_type = ''explode'', a_target = None, a_params = []\<rparr>"
  let ?after = "\<lparr>a_type = ''log_message'', a_target = None, a_params = [(''message'', VStr ''after'')]\<rparr>"
  have pass: "\<forall>c \<in> set (r_conditions faulty_alert). evaluate c (reading 40) = Inr True"
    by (simp add: faulty_alert_def temp_alert_def reading_def evaluate_def resolve_path_def
        dict_get_def OP_MAP_def)
  have acts: "r_actions faulty_alert = [?log] @ ?bad # [?after]"
    by (simp add: faulty_alert_def)
  have before: "\<forall>b \<in> set [?log]. \<not> isl (fst (execute_action b (reading 40) faulty_hub))"
    by (simp add: execute_action_def Let_def)
  have result: "projr (fst (execute_action ?log (reading 40) faulty_hub)) = VDict [(''logged'', VStr ''hot!'')]"
    by (simp add: execute_action_def Let_def dict_get_def)
  have fail: "fst (execute_action ?bad (reading 40) faulty_hub) = Inl (UnknownActionType ''explode'')"
    by (simp add: execute_action_def)
  from first_failing_action_stops_rule [OF pass, of faulty_hub None "[]"] acts before fail
  have "(\<exists>d. fst (process_rule None (reading 40) faulty_alert [] faulty_hub) =
             [] @ [[(''rule'', RStr (r_name faulty_alert)), (''status'', RStr ''error''),
                    (''actions'', RActions (map (\<lambda>b. projr (fst (execute_action b (reading 40) faulty_hub))) [?log])),
                    (''duration_ms'', RDuration d)]])
          \<and> ex_result (last (tbl_executions (snd (process_rule None (reading 40) faulty_alert [] faulty_hub)))) = ''error''
          \<and> ex_error (last (tbl_executions (snd (process_rule None (reading 40) faulty_alert [] faulty_hub))))
              = Some (UnknownActionType ''explode'')
          \<and> process_rule None (reading 40) faulty_alert [] faulty_hub
              = process_rule None (reading 40) (faulty_alert\<lparr>r_actions := [?log] @ [?bad]\<rparr>) [] faulty_hub"
    by blast
  with passes fail result show ?thesis
    by auto
qed

text \<open>
  The claim as stated does not hold: the entry returned for a rule whose second action
  raises has the four keys \<open>rule\<close>, \<open>status\<close>, \<open>actions\<close> and \<open>duration_ms\<close> and
  no field for the causing message, and its action list holds the one result produced
  before the failure, the failing action contributing none.
\<close>

theorem error_entry_counterexample:
  "fst (run_rule_engine (reading 40) (Some ''sensor'') faulty_hub) =
     [[(''rule'', RStr ''temp_alert''), (''status'', RStr ''error''),
       (''actions'', RActions [VDict [(''logged'', VStr ''hot!'')]]),
       (''duration_ms'', RDuration 2000)]]
   \<and> map_of (hd (fst (run_rule_engine (reading 40) (Some ''sensor'') faulty_hub))) ''error'' = None
   \<and> map a_type (r_actions faulty_alert) = [''log_message'', ''explode'', ''log_message'']
   \<and> fst (execute_action \<lparr>a_type = ''explode'', a_target = None, a_params = []\<rparr>
             (reading 40) faulty_hub)
       = Inl (UnknownActionType ''explode'')"
proof -
  let ?s1 = "faulty_hub\<lparr>ticks := 2\<rparr>"
  define s2 where "s2 = hub_log ''INFO'' (RuleAction (VStr ''hot!'')) (reading 40)
      (?s1\<lparr>ticks := Suc (ticks ?s1)\<rparr>)"
  have ok: "fst (evaluate_rule faulty_alert (reading 40))"
    by (simp add: evaluate_rule_passed faulty_alert_def temp_alert_def reading_def evaluate_def
        resolve_path_def dict_get_def OP_MAP_def)
  have sel: "selected_rules (Some ''sensor'') faulty_hub = [faulty_alert]"
    by (simp add: selected_rules_def by_trigger_type_def active_rules_eq faulty_hub_def add_rule_def in_int64_def init_hub_def
        hub_log_def utcnow_def rule_of_row_def faulty_alert_def temp_alert_def)
  have run: "run_actions (r_actions faulty_alert) (reading 40) (?s1\<lparr>ticks := Suc (ticks ?s1)\<rparr>) []
      = (Some (UnknownActionType ''explode''), [VDict [(''logged'', VStr ''hot!'')]], s2)"
    by (simp add: s2_def faulty_alert_def temp_alert_def execute_action_def dict_get_def Let_def)
  have state: "ticks faulty_hub = 1" "clock faulty_hub = demo_clock"
    "ticks faulty_hub + length (filter row_enabled (tbl_rules faulty_hub)) = 2"
    by (simp_all add: faulty_hub_def add_rule_def in_int64_def init_hub_def hub_log_def utcnow_def
        faulty_alert_def temp_alert_def)
  have eng: "run_rule_engine (reading 40) (Some ''sensor'') faulty_hub
      = process_rule (Some ''sensor'') (reading 40) faulty_alert [] ?s1"
    using engine_single_rule [OF sel, of "reading 40"] by (simp only: state(3))
  have tick2: "ticks s2 = 4"
    by (simp add: s2_def hub_log_frame)
  have name: "r_name faulty_alert = ''temp_alert''"
    by (simp add: faulty_alert_def temp_alert_def)
  have entry: "fst (process_rule (Some ''sensor'') (reading 40) faulty_alert [] ?s1) =
     [[(''rule'', RStr ''temp_alert''), (''status'', RStr ''error''),
       (''actions'', RActions [VDict [(''logged'', VStr ''hot!'')]]),
       (''duration_ms'', RDuration 2000)]]"
    using process_rule_pass(1) [OF ok run, of "Some ''sensor''" "[]"]
    by (simp add: state tick2 name demo_clock_def)
  have second: "map a_type (r_actions faulty_alert) = [''log_message'', ''explode'', ''log_message'']"
    by (simp add: faulty_alert_def)
  have raises: "fst (execute_action \<lparr>a_type = ''explode'', a_target = None, a_params = []\<rparr>
             (reading 40) faulty_hub)
       = Inl (UnknownActionType ''explode'')"
    by (simp add: execute_action_def)
  from entry second raises show ?thesis
    by (simp add: eng)
qed

section \<open>Services without a handler\<close>

lemma call_service_no_handler:
  assumes "a_type act = ''call_service''"
    and "\<forall>n. a_target act = Some n \<longrightarrow> service_handlers s n = None"
  shows "execute_action act ctx s =
      (Inr (VDict [(''service'', opt_str (a_target act)), (''status'', VStr ''no_handler'')]),
       emit (NoHandler (a_target act)) s)"
  using assms by (cases "a_target act") (simp_all add: execute_action_def Let_def)

text \<open>
  Claim C9. A \<open>call_service\<close> action whose target has no handler in the registry does
  not raise: \<open>execute_action\<close> returns the dictionary with the service and the status
  \<open>no_handler\<close>, after a warning to the logger. So a rule whose conditions pass and
  whose actions are a log message followed by such a call runs both actions (the log row
  is written and the warning is given), its result entry has status \<open>ok\<close> with both
  results, and its execution record has result \<open>ok\<close> and no error.
\<close>

theorem unregistered_service_is_not_fatal:
  assumes tag: "a_type act = ''call_service''"
    and unreg: "\<forall>n. a_target act = Some n \<longrightarrow> service_handlers s n = None"
  shows "execute_action act ctx s =
      (Inr (VDict [(''service'', opt_str (a_target act)), (''status'', VStr ''no_handler'')]),
       emit (NoHandler (a_target act)) s)
    \<and> (\<forall>rule lg.
          (\<forall>c \<in> set (r_conditions rule). evaluate c ctx = Inr True)
          \<and> r_actions rule = [lg, act] \<and> a_type lg = ''log_message'' \<longrightarrow>
          (\<exists>d. fst (process_rule tt ctx rule results s) =
             results @ [[(''rule'', RStr (r_name rule)), (''status'', RStr ''ok''),
                         (''actions'', RActions
                            [VDict [(''logged'', dict_get (a_params lg) ''message'' (VStr []))],
                             VDict [(''service'', opt_str (a_target act)),
                                    (''status'', VStr ''no_handler'')]]),
                         (''duration_ms'', RDuration d)]])
          \<and> ex_result (last (tbl_executions (snd (process_rule tt ctx rule results s)))) = ''ok''
          \<and> ex_error (last (tbl_executions (snd (process_rule tt ctx rule results s)))) = None
          \<and> map log_msg (tbl_logs (snd (process_rule tt ctx rule results s)))
              = map log_msg (tbl_logs s) @ [RuleAction (dict_get (a_params lg) ''message'' (VStr []))]
          \<and> emitted (snd (process_rule tt ctx rule results s))
              = emitted s @ [NoHandler (a_target act)])"
proof -
  have single: "execute_action act ctx s' =
      (Inr (VDict [(''service'', opt_str (a_target act)), (''status'', VStr ''no_handler'')]),
       emit (NoHandler (a_target act)) s')"
    if "service_handlers s' = service_handlers s" for s'
    using tag unreg that by (intro call_service_no_handler) simp_all
  have scenario: "(\<exists>d. fst (process_rule tt ctx rule results s) =
             results @ [[(''rule'', RStr (r_name rule)), (''status'', RStr ''ok''),
                         (''actions'', RActions
                            [VDict [(''logged'', dict_get (a_params lg) ''message'' (VStr []))],
                             VDict [(''service'', opt_str (a_target act)),
                                    (''status'', VStr ''no_handler'')]]),
                         (''duration_ms'', RDuration d)]])
          \<and> ex_result (last (tbl_executions (snd (process_rule tt ctx rule results s)))) = ''ok''
          \<and> ex_error (last (tbl_executions (snd (process_rule tt ctx rule results s)))) = None
          \<and> map log_msg (tbl_logs (snd (process_rule tt ctx rule results s)))
              = map log_msg (tbl_logs s) @ [RuleAction (dict_get (a_params lg) ''message'' (VStr []))]
          \<and> emitted (snd (process_rule tt ctx rule results s))
              = emitted s @ [NoHandler (a_target act)]"
    if pass: "\<forall>c \<in> set (r_conditions rule). evaluate c ctx = Inr True"
      and acts: "r_actions rule = [lg, act]" and lg: "a_type lg = ''log_message''"
    for rule lg
  proof -
    let ?s1 = "s\<lparr>ticks := Suc (ticks s)\<rparr>"
    let ?msg = "dict_get (a_params lg) ''message'' (VStr [])"
    let ?s2 = "emit (NoHandler (a_target act)) (hub_log ''INFO'' (RuleAction ?msg) ctx ?s1)"
    have ok: "fst (evaluate_rule rule ctx)"
      using pass by (simp add: evaluate_rule_passed)
    have first: "execute_action lg ctx ?s1 =
        (Inr (VDict [(''logged'', ?msg)]), hub_log ''INFO'' (RuleAction ?msg) ctx ?s1)"
      using lg by (simp add: execute_action_def Let_def)
    have second: "execute_action act ctx (hub_log ''INFO'' (RuleAction ?msg) ctx ?s1) =
        (Inr (VDict [(''service'', opt_str (a_target act)), (''status'', VStr ''no_handler'')]),
         ?s2)"
      by (rule single) (simp add: hub_log_frame)
    have run: "run_actions (r_actions rule) ctx ?s1 [] =
        (None, [VDict [(''logged'', ?msg)],
                VDict [(''service'', opt_str (a_target act)), (''status'', VStr ''no_handler'')]],
         ?s2)"
      by (simp add: acts first second)
    have logs: "map log_msg (tbl_logs ?s2) = map log_msg (tbl_logs s) @ [RuleAction ?msg]"
      by (simp add: emit_def hub_log_def utcnow_def)
    have emitted: "emitted ?s2 = emitted s @ [NoHandler (a_target act)]"
      by (simp add: emit_def hub_log_def utcnow_def)
    from process_rule_pass(1,2,4,5) [OF ok run, of tt results] logs emitted show ?thesis
      by simp
  qed
  from single [of s] scenario show ?thesis
    by blast
qed

theorem unregistered_service_is_not_fatal_witness:
  "service_handlers siren_hub ''siren'' = None
   \<and> map (\<lambda>c. evaluate c (reading 40)) (r_conditions siren_alert) = [Inr True]
   \<and> map a_type (r_actions siren_alert) = [''log_message'', ''call_service'']
   \<and> map_of (last (fst (process_rule (Some ''sensor'') (reading 40) siren_alert [] siren_hub))) ''status''
       = Some (RStr ''ok'')
   \<and> map_of (last (fst (process_rule (Some ''sensor'') (reading 40) siren_alert [] siren_hub))) ''actions''
       = Some (RActions [VDict [(''logged'', VStr ''hot!'')],
                         VDict [(''service'', VStr ''siren''), (''status'', VStr ''no_handler'')]])
   \<and> emitted (snd (process_rule (Some ''sensor'') (reading 40) siren_alert [] siren_hub))
       = [DbInitialised, NoHandler (Some ''siren'')]"
proof -
  have passes: "map (\<lambda>c. evaluate c (reading 40)) (r_conditions siren_alert) = [Inr True]"
    by (simp add: siren_alert_def temp_alert_def reading_def evaluate_def resolve_path_def dict_get_def OP_MAP_def)
  let ?lg = "\<lparr>a_type = ''log_message'', a_target = None, a_params = [(''message'', VStr ''hot!'')]\<rparr>"
  let ?call = "\<lparr>a_type = ''call_service'', a_target = Some ''siren'', a_params = [(''level'', VInt 3)]\<rparr>"
  have none: "service_handlers siren_hub ''siren'' = None"
    by (simp add: siren_hub_def add_rule_def in_int64_def init_hub_def hub_log_def utcnow_def
        siren_alert_def temp_alert_def)
  have tag: "a_type ?call = ''call_service''"
    by simp
  have unreg: "\<forall>n. a_target ?call = Some n \<longrightarrow> service_handlers siren_hub n = None"
    using none by simp
  have pass: "\<forall>c \<in> set (r_conditions siren_alert). evaluate c (reading 40) = Inr True"
    by (simp add: siren_alert_def temp_alert_def reading_def evaluate_def resolve_path_def
        dict_get_def OP_MAP_def)
  have acts: "r_actions siren_alert = [?lg, ?call]"
    by (simp add: siren_alert_def)
  have emitted0: "emitted siren_hub = [DbInitialised]"
    by (simp add: siren_hub_def add_rule_def in_int64_def init_hub_def hub_log_def utcnow_def
        siren_alert_def temp_alert_def)
  have prem: "(\<forall>c \<in> set (r_conditions siren_alert). evaluate c (reading 40) = Inr True)
          \<and> r_actions siren_alert = [?lg, ?call] \<and> a_type ?lg = ''log_message''"
    using pass acts by simp
  from conjunct2 [OF unregistered_service_is_not_fatal
      [OF tag unreg, of "reading 40" "Some ''sensor''" "[]"], THEN spec, THEN spec, THEN mp, OF prem]
  have "(\<exists>d. fst (process_rule (Some ''sensor'') (reading 40) siren_alert [] siren_hub) =
             [] @ [[(''rule'', RStr (r_name siren_alert)), (''status'', RStr ''ok''),
                    (''actions'', RActions
                       [VDict [(''logged'', dict_get (a_params ?lg) ''message'' (VStr []))],
                        VDict [(''service'', opt_str (a_target ?call)),
                               (''status'', VStr ''no_handler'')]]),
                    (''duration_ms'', RDuration d)]])
        \<and> emitted (snd (process_rule (Some ''sensor'') (reading 40) siren_alert [] siren_hub))
              = emitted siren_hub @ [NoHandler (a_target ?call)]"
    by simp
  with none passes acts emitted0 show ?thesis
    by (auto simp: dict_get_def opt_str_def)
qed

section \<open>Importing rule documents\<close>

lemma mk_all_map:
  assumes "\<And>x. mk (f x) = Inr x"
  shows "mk_all mk (map f xs) = Inr xs"
  using assms by (induction xs) simp_all

lemma from_dict_to_dict: "from_dict (to_dict r) now = Inr r"
proof -
  have t: "mk_trigger (trigger_to_dict (r_trigger r)) = Inr (r_trigger r)"
    by (simp add: mk_trigger_def trigger_to_dict_def)
  have c: "mk_all mk_condition (map condition_to_dict (r_conditions r)) = Inr (r_conditions r)"
    by (rule mk_all_map) (simp add: mk_condition_def condition_to_dict_def)
  have a: "mk_all mk_action (map action_to_dict (r_actions r)) = Inr (r_actions r)"
    by (rule mk_all_map) (simp add: mk_action_def action_to_dict_def)
  show ?thesis
    by (simp add: from_dict_def to_dict_def t c a)
qed

lemma read_definition_from_dict:
  "from_dict (to_dict (row_definition row)) now = Inr (fst (read_definition row s))"
  by (simp add: read_definition_def utcnow_def from_dict_to_dict)

lemma from_dict_Inr:
  assumes "from_dict d now = Inr r"
  obtains td trg conds acts n where
    "d_trigger d = Some td" and "mk_trigger td = Inr trg"
    and "mk_all mk_condition (case d_conditions d of None \<Rightarrow> [] | Some cs \<Rightarrow> cs) = Inr conds"
    and "mk_all mk_action (case d_actions d of None \<Rightarrow> [] | Some as \<Rightarrow> as) = Inr acts"
    and "d_name d = Some n"
    and "r = \<lparr>r_name = n, r_trigger = trg, r_conditions = conds, r_actions = acts,
               r_enabled = (case d_enabled d of None \<Rightarrow> True | Some b \<Rightarrow> b),
               r_priority = (case d_priority d of None \<Rightarrow> 0 | Some p \<Rightarrow> p),
               r_description = (case d_description d of None \<Rightarrow> [] | Some t \<Rightarrow> t),
               r_created_at = (case d_created_at d of None \<Rightarrow> now | Some t \<Rightarrow> t),
               r_last_triggered = d_last_triggered d,
               r_trigger_count = (case d_trigger_count d of None \<Rightarrow> 0 | Some k \<Rightarrow> k)\<rparr>"
proof -
  from assms obtain td where 1: "d_trigger d = Some td"
    by (cases "d_trigger d") (simp_all add: from_dict_def)
  from assms 1 obtain trg where 2: "mk_trigger td = Inr trg"
    by (cases "mk_trigger td") (simp_all add: from_dict_def)
  from assms 1 2 obtain conds where
    3: "mk_all mk_condition (case d_conditions d of None \<Rightarrow> [] | Some cs \<Rightarrow> cs) = Inr conds"
    by (cases "mk_all mk_condition (case d_conditions d of None \<Rightarrow> [] | Some cs \<Rightarrow> cs)")
      (simp_all add: from_dict_def)
  from assms 1 2 3 obtain acts where
    4: "mk_all mk_action (case d_actions d of None \<Rightarrow> [] | Some as \<Rightarrow> as) = Inr acts"
    by (cases "mk_all mk_action (case d_actions d of None \<Rightarrow> [] | Some as \<Rightarrow> as)")
      (simp_all add: from_dict_def)
  from assms 1 2 3 4 obtain n where 5: "d_name d = Some n"
    by (cases "d_name d") (simp_all add: from_dict_def)
  from assms 1 2 3 4 5 have "r = \<lparr>r_name = n, r_trigger = trg, r_conditions = conds, r_actions = acts,
               r_enabled = (case d_enabled d of None \<Rightarrow> True | Some b \<Rightarrow> b),
               r_priority = (case d_priority d of None \<Rightarrow> 0 | Some p \<Rightarrow> p),
               r_description = (case d_description d of None \<Rightarrow> [] | Some t \<Rightarrow> t),
               r_created_at = (case d_created_at d of None \<Rightarrow> now | Some t \<Rightarrow> t),
               r_last_triggered = d_last_triggered d,
               r_trigger_count = (case d_trigger_count d of None \<Rightarrow> 0 | Some k \<Rightarrow> k)\<rparr>"
    by (simp add: from_dict_def)
  with 1 2 3 4 5 show thesis
    by (rule that)
qed

lemma from_dict_missing:
  assumes "d_name d = None \<or> d_trigger d = None"
  shows "\<exists>e. from_dict d now = Inl e"
proof (cases "from_dict d now")
  case (Inl e)
  then show ?thesis by blast
next
  case (Inr r)
  then obtain td n where "d_trigger d = Some td" "d_name d = Some n"
    by (rule from_dict_Inr)
  with assms show ?thesis by simp
qed

lemma from_dict_defaults:
  assumes "from_dict d now = Inr r"
  shows "d_name d = Some (r_name r)"
    and "r_enabled r = (case d_enabled d of None \<Rightarrow> True | Some b \<Rightarrow> b)"
    and "r_priority r = (case d_priority d of None \<Rightarrow> 0 | Some p \<Rightarrow> p)"
    and "d_conditions d = None \<Longrightarrow> r_conditions r = []"
    and "d_actions d = None \<Longrightarrow> r_actions r = []"
    and "r_last_triggered r = d_last_triggered d"
    and "r_trigger_count r = (case d_trigger_count d of None \<Rightarrow> 0 | Some k \<Rightarrow> k)"
proof -
  from assms obtain td trg conds acts n where parts:
    "mk_all mk_condition (case d_conditions d of None \<Rightarrow> [] | Some cs \<Rightarrow> cs) = Inr conds"
    "mk_all mk_action (case d_actions d of None \<Rightarrow> [] | Some as \<Rightarrow> as) = Inr acts"
    "d_name d = Some n"
    "r = \<lparr>r_name = n, r_trigger = trg, r_conditions = conds, r_actions = acts,
               r_enabled = (case d_enabled d of None \<Rightarrow> True | Some b \<Rightarrow> b),
               r_priority = (case d_priority d of None \<Rightarrow> 0 | Some p \<Rightarrow> p),
               r_description = (case d_description d of None \<Rightarrow> [] | Some t \<Rightarrow> t),
               r_created_at = (case d_created_at d of None \<Rightarrow> now | Some t \<Rightarrow> t),
               r_last_triggered = d_last_triggered d,
               r_trigger_count = (case d_trigger_count d of None \<Rightarrow> 0 | Some k \<Rightarrow> k)\<rparr>"
    by (rule from_dict_Inr)
  show "d_name d = Some (r_name r)"
    by (simp add: parts(3,4))
  show "r_enabled r = (case d_enabled d of None \<Rightarrow> True | Some b \<Rightarrow> b)"
    by (simp add: parts(4))
  show "r_priority r = (case d_priority d of None \<Rightarrow> 0 | Some p \<Rightarrow> p)"
    by (simp add: parts(4))
  show "r_conditions r = []" if "d_conditions d = None"
    using parts(1) that by (simp add: parts(4))
  show "r_actions r = []" if "d_actions d = None"
    using parts(2) that by (simp add: parts(4))
  show "r_last_triggered r = d_last_triggered d"
    by (simp add: parts(4))
  show "r_trigger_count r = (case d_trigger_count d of None \<Rightarrow> 0 | Some k \<Rightarrow> k)"
    by (simp add: parts(4))
qed

lemma find_after_replace:
  "find (\<lambda>r. row_name r = n) (filter (\<lambda>r. row_name r \<noteq> n) rows @ [row])
     = (if row_name row = n then Some row else None)"
  by (induction rows) simp_all

lemma add_rule_ok:
  assumes "in_int64 (r_priority rule)" and "in_int64 (r_trigger_count rule)"
  shows "add_rule rule s =
     (Inr rule,
      hub_log ''INFO'' (RuleAdded (r_name rule)) []
        (s\<lparr>tbl_rules := filter (\<lambda>r. row_name r \<noteq> r_name rule) (tbl_rules s) @
           [\<lparr>row_name = r_name rule, row_definition = rule, row_enabled = r_enabled rule,
             row_priority = r_priority rule, row_created_at = r_created_at rule,
             row_last_triggered = r_last_triggered rule,
             row_trigger_count = r_trigger_count rule\<rparr>]\<rparr>))"
  using assms by (simp add: add_rule_def)

lemma add_rule_overflow:
  assumes "\<not> (in_int64 (r_priority rule) \<and> in_int64 (r_trigger_count rule))"
  shows "add_rule rule s = (Inl OverflowError, s)"
  using assms by (simp add: add_rule_def)

lemma add_rule_Inr:
  assumes "fst (add_rule rule s) = Inr r"
  shows "r = rule" and "in_int64 (r_priority rule)" and "in_int64 (r_trigger_count rule)"
  using assms by (simp_all add: add_rule_def split: if_splits)

lemma add_rule_rows:
  assumes "in_int64 (r_priority rule)" and "in_int64 (r_trigger_count rule)"
  shows "tbl_rules (snd (add_rule rule s)) =
     filter (\<lambda>r. row_name r \<noteq> r_name rule) (tbl_rules s) @
       [\<lparr>row_name = r_name rule, row_definition = rule, row_enabled = r_enabled rule,
         row_priority = r_priority rule, row_created_at = r_created_at rule,
         row_last_triggered = r_last_triggered rule, row_trigger_count = r_trigger_count rule\<rparr>]"
  by (simp add: add_rule_ok [OF assms] hub_log_def utcnow_def)

lemma get_rule_add_rule:
  assumes "in_int64 (r_priority rule)" and "in_int64 (r_trigger_count rule)"
  shows "fst (get_rule (r_name rule) (snd (add_rule rule s))) = Some rule"
  by (simp add: get_rule_def add_rule_rows [OF assms] find_after_replace read_definition_def
      utcnow_def)

lemma import_result:
  "add_rule_from_json d s =
     (case from_dict d (isoformat s (clock s (ticks s))) of
        Inl e \<Rightarrow> (Inl e, s)
      | Inr rule \<Rightarrow> add_rule rule (s\<lparr>ticks := Suc (ticks s)\<rparr>))"
  by (simp add: add_rule_from_json_def utcnow_def split: sum.splits)

lemma import_Inr:
  assumes "fst (add_rule_from_json d s) = Inr r"
  shows "from_dict d (isoformat s (clock s (ticks s))) = Inr r"
    and "in_int64 (r_priority r)" and "in_int64 (r_trigger_count r)"
    and "add_rule_from_json d s = add_rule r (s\<lparr>ticks := Suc (ticks s)\<rparr>)"
proof -
  let ?now = "isoformat s (clock s (ticks s))"
  obtain r0 where fd: "from_dict d ?now = Inr r0"
    using assms by (cases "from_dict d ?now") (simp_all add: import_result)
  then have res: "add_rule_from_json d s = add_rule r0 (s\<lparr>ticks := Suc (ticks s)\<rparr>)"
    by (simp add: import_result)
  with assms have added: "fst (add_rule r0 (s\<lparr>ticks := Suc (ticks s)\<rparr>)) = Inr r"
    by simp
  from add_rule_Inr [OF added] have same: "r = r0"
    and fits: "in_int64 (r_priority r0)" "in_int64 (r_trigger_count r0)"
    by simp_all
  show "from_dict d ?now = Inr r"
    using fd same by simp
  show "in_int64 (r_priority r)" "in_int64 (r_trigger_count r)"
    using fits same by simp_all
  show "add_rule_from_json d s = add_rule r (s\<lparr>ticks := Suc (ticks s)\<rparr>)"
    using res same by simp
qed

text \<open>
  Claim C8, as the code has it. Importing a document without \<open>name\<close> or without
  \<open>trigger\<close> returns an error and leaves the hub exactly as it was: a missing
  \<open>trigger\<close> is the \<open>KeyError\<close> of the first subscript, and a missing \<open>name\<close> in a
  document whose trigger, conditions and actions are accepted by their constructors is
  the \<open>KeyError\<close> of \<open>d["name"]\<close>. A document with a name whose trigger, conditions
  and actions are accepted (absent conditions and actions being empty lists) is imported
  when its priority and its trigger count, 0 when absent, are integers of the store: the
  rule has the parts of the document, it is enabled unless the document says otherwise,
  its priority is 0 unless the document gives one, and it is the rule then stored under
  its name. When one of the two numbers is not an integer of the store, the import raises
  \<open>OverflowError\<close> and the rule table is as before. In every successful import a
  missing \<open>enabled\<close> is true, a missing \<open>priority\<close> is 0 and missing conditions or
  actions are empty lists.
\<close>

theorem malformed_import_fails_fast:
  "(d_name d = None \<or> d_trigger d = None \<longrightarrow> (\<exists>e. add_rule_from_json d s = (Inl e, s)))
   \<and> (d_trigger d = None \<longrightarrow> add_rule_from_json d s = (Inl (KeyError ''trigger''), s))
   \<and> (\<forall>n td trg conds acts.
         d_trigger d = Some td \<and> mk_trigger td = Inr trg
         \<and> mk_all mk_condition (case d_conditions d of None \<Rightarrow> [] | Some cs \<Rightarrow> cs) = Inr conds
         \<and> mk_all mk_action (case d_actions d of None \<Rightarrow> [] | Some as \<Rightarrow> as) = Inr acts
         \<longrightarrow> (d_name d = None \<longrightarrow> add_rule_from_json d s = (Inl (KeyError ''name''), s))
           \<and> (d_name d = Some n
                \<and> in_int64 (case d_priority d of None \<Rightarrow> 0 | Some p \<Rightarrow> p)
                \<and> in_int64 (case d_trigger_count d of None \<Rightarrow> 0 | Some k \<Rightarrow> k) \<longrightarrow>
               (\<exists>r. fst (add_rule_from_json d s) = Inr r
                  \<and> r_name r = n \<and> r_trigger r = trg \<and> r_conditions r = conds \<and> r_actions r = acts
                  \<and> r_enabled r = (case d_enabled d of None \<Rightarrow> True | Some b \<Rightarrow> b)
                  \<and> r_priority r = (case d_priority d of None \<Rightarrow> 0 | Some p \<Rightarrow> p)
                  \<and> fst (get_rule n (snd (add_rule_from_json d s))) = Some r))
           \<and> (d_name d = Some n
                \<and> \<not> (in_int64 (case d_priority d of None \<Rightarrow> 0 | Some p \<Rightarrow> p)
                      \<and> in_int64 (case d_trigger_count d of None \<Rightarrow> 0 | Some k \<Rightarrow> k)) \<longrightarrow>
               fst (add_rule_from_json d s) = Inl OverflowError
               \<and> tbl_rules (snd (add_rule_from_json d s)) = tbl_rules s))
   \<and> (\<forall>r. fst (add_rule_from_json d s) = Inr r \<longrightarrow>
         (d_enabled d = None \<longrightarrow> r_enabled r) \<and> (d_priority d = None \<longrightarrow> r_priority r = 0)
         \<and> (d_conditions d = None \<longrightarrow> r_conditions r = [])
         \<and> (d_actions d = None \<longrightarrow> r_actions r = []))"
proof -
  let ?now = "isoformat s (clock s (ticks s))"
  let ?p = "case d_priority d of None \<Rightarrow> 0 | Some p \<Rightarrow> p"
  let ?k = "case d_trigger_count d of None \<Rightarrow> 0 | Some k \<Rightarrow> k"
  have missing: "\<exists>e. add_rule_from_json d s = (Inl e, s)" if "d_name d = None \<or> d_trigger d = None"
  proof -
    from from_dict_missing [OF that, of ?now] obtain e where "from_dict d ?now = Inl e" ..
    then show ?thesis
      by (simp add: add_rule_from_json_def utcnow_def)
  qed
  have no_trigger: "add_rule_from_json d s = (Inl (KeyError ''trigger''), s)" if "d_trigger d = None"
    using that by (simp add: add_rule_from_json_def utcnow_def from_dict_def)
  have wellformed: "(d_name d = None \<longrightarrow> add_rule_from_json d s = (Inl (KeyError ''name''), s))
           \<and> (d_name d = Some n \<and> in_int64 ?p \<and> in_int64 ?k \<longrightarrow>
               (\<exists>r. fst (add_rule_from_json d s) = Inr r
                  \<and> r_name r = n \<and> r_trigger r = trg \<and> r_conditions r = conds \<and> r_actions r = acts
                  \<and> r_enabled r = (case d_enabled d of None \<Rightarrow> True | Some b \<Rightarrow> b)
                  \<and> r_priority r = ?p
                  \<and> fst (get_rule n (snd (add_rule_from_json d s))) = Some r))
           \<and> (d_name d = Some n \<and> \<not> (in_int64 ?p \<and> in_int64 ?k) \<longrightarrow>
               fst (add_rule_from_json d s) = Inl OverflowError
               \<and> tbl_rules (snd (add_rule_from_json d s)) = tbl_rules s)"
    if parts: "d_trigger d = Some td \<and> mk_trigger td = Inr trg
         \<and> mk_all mk_condition (case d_conditions d of None \<Rightarrow> [] | Some cs \<Rightarrow> cs) = Inr conds
         \<and> mk_all mk_action (case d_actions d of None \<Rightarrow> [] | Some as \<Rightarrow> as) = Inr acts"
    for n td trg conds acts
  proof (cases "d_name d")
    case None
    with parts show ?thesis
      by (simp add: add_rule_from_json_def utcnow_def from_dict_def)
  next
    case (Some m)
    let ?r = "\<lparr>r_name = m, r_trigger = trg, r_conditions = conds, r_actions = acts,
               r_enabled = (case d_enabled d of None \<Rightarrow> True | Some b \<Rightarrow> b),
               r_priority = ?p,
               r_description = (case d_description d of None \<Rightarrow> [] | Some t \<Rightarrow> t),
               r_created_at = (case d_created_at d of None \<Rightarrow> ?now | Some t \<Rightarrow> t),
               r_last_triggered = d_last_triggered d,
               r_trigger_count = ?k\<rparr>"
    have fd: "from_dict d ?now = Inr ?r"
      using parts Some by (simp add: from_dict_def)
    have res: "add_rule_from_json d s = add_rule ?r (s\<lparr>ticks := Suc (ticks s)\<rparr>)"
      using fd by (simp add: import_result)
    have fields: "r_priority ?r = ?p" "r_trigger_count ?r = ?k" "r_name ?r = m"
      by simp_all
    have stored: "\<exists>r. fst (add_rule_from_json d s) = Inr r
                  \<and> r_name r = m \<and> r_trigger r = trg \<and> r_conditions r = conds \<and> r_actions r = acts
                  \<and> r_enabled r = (case d_enabled d of None \<Rightarrow> True | Some b \<Rightarrow> b)
                  \<and> r_priority r = ?p
                  \<and> fst (get_rule m (snd (add_rule_from_json d s))) = Some r"
      if fits: "in_int64 ?p" "in_int64 ?k"
    proof -
      have p: "in_int64 (r_priority ?r)" and k: "in_int64 (r_trigger_count ?r)"
        using fits by simp_all
      have first: "fst (add_rule_from_json d s) = Inr ?r"
        unfolding res by (simp add: add_rule_ok [OF p k])
      have "fst (get_rule (r_name ?r) (snd (add_rule ?r (s\<lparr>ticks := Suc (ticks s)\<rparr>)))) = Some ?r"
        by (rule get_rule_add_rule [OF p k])
      then have "fst (get_rule m (snd (add_rule_from_json d s))) = Some ?r"
        by (simp add: res)
      with first show ?thesis
        by (intro exI [of _ ?r]) simp
    qed
    have refused: "fst (add_rule_from_json d s) = Inl OverflowError
               \<and> tbl_rules (snd (add_rule_from_json d s)) = tbl_rules s"
      if "\<not> (in_int64 ?p \<and> in_int64 ?k)"
    proof -
      have "\<not> (in_int64 (r_priority ?r) \<and> in_int64 (r_trigger_count ?r))"
        using that by simp
      from add_rule_overflow [OF this, of "s\<lparr>ticks := Suc (ticks s)\<rparr>"] show ?thesis
        by (simp add: res)
    qed
    from Some stored refused show ?thesis
      by auto
  qed
  have defaults: "(d_enabled d = None \<longrightarrow> r_enabled r) \<and> (d_priority d = None \<longrightarrow> r_priority r = 0)
         \<and> (d_conditions d = None \<longrightarrow> r_conditions r = [])
         \<and> (d_actions d = None \<longrightarrow> r_actions r = [])"
    if ok: "fst (add_rule_from_json d s) = Inr r" for r
  proof -
    have "from_dict d ?now = Inr r"
      using ok by (rule import_Inr(1))
    from from_dict_defaults(2-5) [OF this] show ?thesis
      by simp
  qed
  from missing no_trigger wellformed defaults show ?thesis
    by blast
qed

theorem malformed_import_fails_fast_witness:
  "d_name nameless_doc = None
   \<and> add_rule_from_json nameless_doc test_hub = (Inl (KeyError ''name''), test_hub)
   \<and> \<not> isl (fst (add_rule_from_json minimal_doc test_hub))
   \<and> r_name (projr (fst (add_rule_from_json minimal_doc test_hub))) = ''json_rule''
   \<and> r_enabled (projr (fst (add_rule_from_json minimal_doc test_hub)))
   \<and> r_priority (projr (fst (add_rule_from_json minimal_doc test_hub))) = 0
   \<and> r_conditions (projr (fst (add_rule_from_json minimal_doc test_hub))) = []
   \<and> r_actions (projr (fst (add_rule_from_json minimal_doc test_hub))) = []
   \<and> fst (get_rule ''json_rule'' (snd (add_rule_from_json minimal_doc test_hub)))
       = Some (projr (fst (add_rule_from_json minimal_doc test_hub)))"
proof -
  let ?td = "\<lparr>td_type = Some ''event'', td_config = None, td_other_keys = []\<rparr>"
  let ?trg = "\<lparr>t_type = ''event'', t_config = []\<rparr>"
  have nameless: "d_name nameless_doc = None"
    by (simp add: nameless_doc_def)
  have parts0: "d_trigger nameless_doc = Some ?td \<and> mk_trigger ?td = Inr ?trg
      \<and> mk_all mk_condition (case d_conditions nameless_doc of None \<Rightarrow> [] | Some cs \<Rightarrow> cs) = Inr []
      \<and> mk_all mk_action (case d_actions nameless_doc of None \<Rightarrow> [] | Some as \<Rightarrow> as) = Inr []"
    by (simp add: nameless_doc_def minimal_doc_def mk_trigger_def)
  have parts1: "d_trigger minimal_doc = Some ?td \<and> mk_trigger ?td = Inr ?trg
      \<and> mk_all mk_condition (case d_conditions minimal_doc of None \<Rightarrow> [] | Some cs \<Rightarrow> cs) = Inr []
      \<and> mk_all mk_action (case d_actions minimal_doc of None \<Rightarrow> [] | Some as \<Rightarrow> as) = Inr []"
    by (simp add: minimal_doc_def mk_trigger_def)
  have named: "d_name minimal_doc = Some ''json_rule''" "d_enabled minimal_doc = None"
    "d_priority minimal_doc = None" "d_trigger_count minimal_doc = None"
    by (simp_all add: minimal_doc_def)
  have zero: "in_int64 0"
    by (simp add: in_int64_def)
  note wellformed0 = conjunct1 [OF conjunct2 [OF conjunct2 [OF
      malformed_import_fails_fast [of nameless_doc test_hub]]],
      THEN spec, THEN spec, THEN spec, THEN spec, THEN spec, THEN mp, OF parts0]
  note wellformed1 = conjunct1 [OF conjunct2 [OF conjunct2 [OF
      malformed_import_fails_fast [of minimal_doc test_hub]]],
      THEN spec, THEN spec, THEN spec, THEN spec, THEN spec, THEN mp, OF parts1]
  from wellformed0 nameless
  have failed: "add_rule_from_json nameless_doc test_hub = (Inl (KeyError ''name''), test_hub)"
    by simp
  from wellformed1 [of "''json_rule''"] named zero
  obtain r where "fst (add_rule_from_json minimal_doc test_hub) = Inr r"
    "r_name r = ''json_rule''" "r_enabled r" "r_priority r = 0" "r_conditions r = []"
    "r_actions r = []"
    "fst (get_rule ''json_rule'' (snd (add_rule_from_json minimal_doc test_hub))) = Some r"
    by auto
  with nameless failed show ?thesis
    by simp
qed

text \<open>
  The claim as stated does not hold for every document that misses optional fields
  only: the document below has a name and a trigger and no conditions, actions,
  \<open>enabled\<close> or \<open>priority\<close>, and a trigger count that is not an integer of the
  store. Its import raises and stores nothing.
\<close>

theorem oversized_import_counterexample:
  "d_name oversized_doc = Some ''json_rule''
   \<and> d_trigger oversized_doc = Some \<lparr>td_type = Some ''event'', td_config = None, td_other_keys = []\<rparr>
   \<and> (d_conditions oversized_doc, d_actions oversized_doc, d_enabled oversized_doc,
       d_priority oversized_doc) = (None, None, None, None)
   \<and> d_trigger_count oversized_doc = Some 9223372036854775808
   \<and> fst (add_rule_from_json oversized_doc test_hub) = Inl OverflowError
   \<and> tbl_rules (snd (add_rule_from_json oversized_doc test_hub)) = tbl_rules test_hub
   \<and> fst (get_rule ''json_rule'' (snd (add_rule_from_json oversized_doc test_hub))) = None"
  by (simp add: oversized_doc_def minimal_doc_def import_result from_dict_def mk_trigger_def
      add_rule_def in_int64_def get_rule_def test_hub_state)

section \<open>The rule store\<close>

lemma wf_add_rule:
  assumes "wf_hub s"
  shows "wf_hub (snd (add_rule rule s))"
proof (cases "in_int64 (r_priority rule) \<and> in_int64 (r_trigger_count rule)")
  case False
  then show ?thesis
    using assms by (simp add: add_rule_overflow)
next
  case True
  then have fits: "in_int64 (r_priority rule)" "in_int64 (r_trigger_count rule)"
    by simp_all
  have "distinct (map row_name (filter (\<lambda>r. row_name r \<noteq> r_name rule) (tbl_rules s)))"
    using assms by (simp add: wf_hub_def distinct_map_filter)
  moreover have "r_name rule \<notin> row_name ` set (filter (\<lambda>r. row_name r \<noteq> r_name rule) (tbl_rules s))"
    by auto
  moreover have "list_all (\<lambda>row. r_name (row_definition row) = row_name row)
      (filter (\<lambda>r. row_name r \<noteq> r_name rule) (tbl_rules s))"
    using assms by (simp add: wf_hub_def list_all_iff)
  ultimately show ?thesis
    by (simp add: wf_hub_def add_rule_rows [OF fits])
qed

lemma wf_enable_disable:
  assumes "wf_hub s"
  shows "wf_hub (enable_rule n s)" and "wf_hub (disable_rule n s)"
proof -
  have names: "map row_name (map (\<lambda>r. if row_name r = n then r\<lparr>row_enabled := b\<rparr> else r) rows)
      = map row_name rows" for b rows
    by (induction rows) simp_all
  have defs: "list_all (\<lambda>row. r_name (row_definition row) = row_name row)
        (map (\<lambda>r. if row_name r = n then r\<lparr>row_enabled := b\<rparr> else r) rows)
      = list_all (\<lambda>row. r_name (row_definition row) = row_name row) rows" for b rows
    by (induction rows) simp_all
  have en: "tbl_rules (enable_rule n s)
      = map (\<lambda>r. if row_name r = n then r\<lparr>row_enabled := True\<rparr> else r) (tbl_rules s)"
    by (simp add: enable_rule_def)
  have dis: "tbl_rules (disable_rule n s)
      = map (\<lambda>r. if row_name r = n then r\<lparr>row_enabled := False\<rparr> else r) (tbl_rules s)"
    by (simp add: disable_rule_def)
  show "wf_hub (enable_rule n s)"
    using assms unfolding wf_hub_def en names defs .
  show "wf_hub (disable_rule n s)"
    using assms unfolding wf_hub_def dis names defs .
qed

lemma active_named:
  assumes "wf_hub s"
  shows "filter (\<lambda>r. r_name r = n) (fst (get_active_rules s)) =
     map (\<lambda>row. (rule_of_row row)\<lparr>r_enabled := True\<rparr>)
       (sort_key (\<lambda>row. - row_priority row)
          (filter (\<lambda>row. row_name row = n \<and> row_enabled row) (tbl_rules s)))"
proof -
  let ?f = "\<lambda>row. (rule_of_row row)\<lparr>r_enabled := True\<rparr>"
  let ?k = "\<lambda>row. - row_priority row"
  let ?rows = "filter row_enabled (tbl_rules s)"
  have name: "r_name (?f row) = row_name row" if "row \<in> set (tbl_rules s)" for row
    using assms that by (simp add: wf_hub_def list_all_iff rule_of_row_def)
  have "filter (\<lambda>r. r_name r = n) (fst (get_active_rules s))
      = map ?f (filter (\<lambda>row. r_name (?f row) = n) (sort_key ?k ?rows))"
    by (simp add: active_rules_eq filter_map comp_def)
  also have "filter (\<lambda>row. r_name (?f row) = n) (sort_key ?k ?rows)
      = filter (\<lambda>row. row_name row = n) (sort_key ?k ?rows)"
    by (rule filter_cong) (auto simp: name)
  also have "\<dots> = sort_key ?k (filter (\<lambda>row. row_name row = n) ?rows)"
    by (simp add: filter_sort)
  also have "filter (\<lambda>row. row_name row = n) ?rows
      = filter (\<lambda>row. row_name row = n \<and> row_enabled row) (tbl_rules s)"
    by (simp add: conj_commute)
  finally show ?thesis .
qed

lemma active_after_add:
  assumes "wf_hub s" and fits: "in_int64 (r_priority rule)" "in_int64 (r_trigger_count rule)"
  shows "filter (\<lambda>r. r_name r = r_name rule) (fst (get_active_rules (snd (add_rule rule s))))
     = (if r_enabled rule then [rule] else [])"
proof -
  have none: "filter (\<lambda>row. row_name row = r_name rule \<and> row_enabled row)
      (filter (\<lambda>r. row_name r \<noteq> r_name rule) (tbl_rules s)) = []"
    by (simp add: filter_empty_conv)
  show ?thesis
    by (simp add: active_named [OF wf_add_rule [OF assms(1)]] add_rule_rows [OF fits] none
        rule_of_row_def)
qed

lemma from_dict_now:
  assumes "from_dict d now = Inr r"
  shows "\<exists>r'. from_dict d now' = Inr r' \<and> r_name r' = r_name r \<and> r_enabled r' = r_enabled r
     \<and> r_priority r' = r_priority r \<and> r_trigger_count r' = r_trigger_count r"
proof -
  from assms obtain td trg conds acts n where parts:
    "d_trigger d = Some td" "mk_trigger td = Inr trg"
    "mk_all mk_condition (case d_conditions d of None \<Rightarrow> [] | Some cs \<Rightarrow> cs) = Inr conds"
    "mk_all mk_action (case d_actions d of None \<Rightarrow> [] | Some as \<Rightarrow> as) = Inr acts"
    "d_name d = Some n"
    "r = \<lparr>r_name = n, r_trigger = trg, r_conditions = conds, r_actions = acts,
               r_enabled = (case d_enabled d of None \<Rightarrow> True | Some b \<Rightarrow> b),
               r_priority = (case d_priority d of None \<Rightarrow> 0 | Some p \<Rightarrow> p),
               r_description = (case d_description d of None \<Rightarrow> [] | Some t \<Rightarrow> t),
               r_created_at = (case d_created_at d of None \<Rightarrow> now | Some t \<Rightarrow> t),
               r_last_triggered = d_last_triggered d,
               r_trigger_count = (case d_trigger_count d of None \<Rightarrow> 0 | Some k \<Rightarrow> k)\<rparr>"
    by (rule from_dict_Inr)
  show ?thesis
    by (simp add: from_dict_def parts)
qed

lemma wf_tick: "wf_hub (s\<lparr>ticks := k\<rparr>) = wf_hub s"
  by (simp add: wf_hub_def)

lemma wf_process_rule:
  assumes "wf_hub s"
  shows "wf_hub (snd (process_rule tt ctx rule results s))"
proof -
  have names: "map row_name (map (\<lambda>r. if row_name r = n
        then r\<lparr>row_trigger_count := sql_add_one (row_trigger_count r), row_last_triggered := t\<rparr> else r) rows)
      = map row_name rows" for n t rows
    by (induction rows) simp_all
  have defs: "list_all (\<lambda>row. r_name (row_definition row) = row_name row)
        (map (\<lambda>r. if row_name r = n
          then r\<lparr>row_trigger_count := sql_add_one (row_trigger_count r), row_last_triggered := t\<rparr> else r) rows)
      = list_all (\<lambda>row. r_name (row_definition row) = row_name row) rows" for n t rows
    by (induction rows) simp_all
  show ?thesis
    using assms unfolding wf_hub_def process_rule_rows
    by (cases "fst (evaluate_rule rule ctx)") (simp_all only: if_True if_False names defs)
qed

lemma wf_run_rules:
  assumes "wf_hub s"
  shows "wf_hub (snd (run_rules tt ctx rules results s))"
  using assms
proof (induction rules arbitrary: results s)
  case Nil
  then show ?case by simp
next
  case (Cons rule rules)
  obtain results1 s1 where step: "process_rule tt ctx rule results s = (results1, s1)"
    by (cases "process_rule tt ctx rule results s")
  have "wf_hub s1"
    using wf_process_rule [OF Cons.prems, of tt ctx rule results] step by simp
  from Cons.IH [OF this, of results1] step show ?case by simp
qed

lemma wf_run_rule_engine:
  assumes "wf_hub s"
  shows "wf_hub (snd (run_rule_engine ctx tt s))"
  unfolding run_rule_engine_eq using assms by (simp add: wf_run_rules wf_tick)

lemma wf_init_hub: "wf_hub (init_hub clk render overflows)"
  by (simp add: wf_hub_def init_hub_def)

lemma wf_delete_rule:
  assumes "wf_hub s"
  shows "wf_hub (delete_rule n s)"
  using assms by (simp add: wf_hub_def delete_rule_def distinct_map_filter list_all_iff)

text \<open>
  Claim C6, as the code has it. For a rule whose priority and trigger count are integers
  of the store, \<open>add_rule\<close> replaces by name: whatever the table held, afterwards
  exactly one row has the name of the rule, the rows of other names are untouched,
  \<open>get_rule\<close> returns the rule just added, and adding the same rule again leaves the
  table as it is. On a well-formed store the active listing then holds the rule once if
  it is enabled and not at all if it is disabled. A rule with a priority or a trigger
  count outside the integers of the store is refused with \<open>OverflowError\<close> and the hub
  is as before. So after the same document is imported twice, the first import having
  succeeded, the table has exactly one row of that name, and the active listing has
  exactly one entry of that name when the document's rule is enabled (the default) and
  none when it is disabled.
\<close>

theorem add_rule_replaces_by_name:
  "(in_int64 (r_priority rule) \<and> in_int64 (r_trigger_count rule) \<longrightarrow>
      fst (add_rule rule s) = Inr rule
      \<and> length (filter (\<lambda>row. row_name row = r_name rule) (tbl_rules (snd (add_rule rule s)))) = 1
      \<and> filter (\<lambda>row. row_name row \<noteq> r_name rule) (tbl_rules (snd (add_rule rule s)))
          = filter (\<lambda>row. row_name row \<noteq> r_name rule) (tbl_rules s)
      \<and> fst (get_rule (r_name rule) (snd (add_rule rule s))) = Some rule
      \<and> tbl_rules (snd (add_rule rule (snd (add_rule rule s)))) = tbl_rules (snd (add_rule rule s))
      \<and> (wf_hub s \<longrightarrow>
           wf_hub (snd (add_rule rule s))
           \<and> filter (\<lambda>r. r_name r = r_name rule) (fst (get_active_rules (snd (add_rule rule s))))
               = (if r_enabled rule then [rule] else [])))
   \<and> (\<not> (in_int64 (r_priority rule) \<and> in_int64 (r_trigger_count rule)) \<longrightarrow>
        add_rule rule s = (Inl OverflowError, s))
   \<and> (\<forall>r1. wf_hub s \<and> fst (add_rule_from_json d s) = Inr r1 \<longrightarrow>
        (\<exists>r2. fst (add_rule_from_json d (snd (add_rule_from_json d s))) = Inr r2
           \<and> r_name r2 = r_name r1
           \<and> length (filter (\<lambda>row. row_name row = r_name r1)
                (tbl_rules (snd (add_rule_from_json d (snd (add_rule_from_json d s)))))) = 1
           \<and> length (filter (\<lambda>r. r_name r = r_name r1)
                (fst (get_active_rules (snd (add_rule_from_json d (snd (add_rule_from_json d s)))))))
              = (if r_enabled r1 then 1 else 0)))"
proof -
  have one: "length (filter (\<lambda>row. row_name row = r_name rule) (tbl_rules (snd (add_rule rule s)))) = 1"
    if "in_int64 (r_priority rule)" "in_int64 (r_trigger_count rule)" for rule s
    by (simp add: add_rule_rows [OF that] filter_empty_conv)
  have stored: "fst (add_rule rule s) = Inr rule
      \<and> length (filter (\<lambda>row. row_name row = r_name rule) (tbl_rules (snd (add_rule rule s)))) = 1
      \<and> filter (\<lambda>row. row_name row \<noteq> r_name rule) (tbl_rules (snd (add_rule rule s)))
          = filter (\<lambda>row. row_name row \<noteq> r_name rule) (tbl_rules s)
      \<and> fst (get_rule (r_name rule) (snd (add_rule rule s))) = Some rule
      \<and> tbl_rules (snd (add_rule rule (snd (add_rule rule s)))) = tbl_rules (snd (add_rule rule s))
      \<and> (wf_hub s \<longrightarrow>
           wf_hub (snd (add_rule rule s))
           \<and> filter (\<lambda>r. r_name r = r_name rule) (fst (get_active_rules (snd (add_rule rule s))))
               = (if r_enabled rule then [rule] else []))"
    if fits: "in_int64 (r_priority rule) \<and> in_int64 (r_trigger_count rule)"
  proof -
    have p: "in_int64 (r_priority rule)" and k: "in_int64 (r_trigger_count rule)"
      using fits by simp_all
    have result: "fst (add_rule rule s) = Inr rule"
      by (simp add: add_rule_ok [OF p k])
    have others: "filter (\<lambda>row. row_name row \<noteq> r_name rule) (tbl_rules (snd (add_rule rule s)))
          = filter (\<lambda>row. row_name row \<noteq> r_name rule) (tbl_rules s)"
      by (simp add: add_rule_rows [OF p k])
    have twice: "tbl_rules (snd (add_rule rule (snd (add_rule rule s)))) = tbl_rules (snd (add_rule rule s))"
      by (simp add: add_rule_rows [OF p k])
    have active: "wf_hub s \<longrightarrow>
           wf_hub (snd (add_rule rule s))
           \<and> filter (\<lambda>r. r_name r = r_name rule) (fst (get_active_rules (snd (add_rule rule s))))
               = (if r_enabled rule then [rule] else [])"
      by (simp add: wf_add_rule active_after_add [OF _ p k])
    from result one [OF p k] others get_rule_add_rule [OF p k, of s] twice active show ?thesis
      by blast
  qed
  have refused: "add_rule rule s = (Inl OverflowError, s)"
    if "\<not> (in_int64 (r_priority rule) \<and> in_int64 (r_trigger_count rule))"
    using that by (rule add_rule_overflow)
  have import: "\<exists>r2. fst (add_rule_from_json d (snd (add_rule_from_json d s))) = Inr r2
           \<and> r_name r2 = r_name r1
           \<and> length (filter (\<lambda>row. row_name row = r_name r1)
                (tbl_rules (snd (add_rule_from_json d (snd (add_rule_from_json d s)))))) = 1
           \<and> length (filter (\<lambda>r. r_name r = r_name r1)
                (fst (get_active_rules (snd (add_rule_from_json d (snd (add_rule_from_json d s)))))))
              = (if r_enabled r1 then 1 else 0)"
    if wf: "wf_hub s" and first: "fst (add_rule_from_json d s) = Inr r1" for r1
  proof -
    let ?s1 = "snd (add_rule r1 (s\<lparr>ticks := Suc (ticks s)\<rparr>))"
    note imported = import_Inr [OF first]
    have s1: "snd (add_rule_from_json d s) = ?s1"
      by (simp add: imported(4))
    have wf1: "wf_hub ?s1"
      using wf by (simp add: wf_add_rule wf_tick)
    from from_dict_now [OF imported(1), of "isoformat ?s1 (clock ?s1 (ticks ?s1))"]
    obtain r2 where fd2: "from_dict d (isoformat ?s1 (clock ?s1 (ticks ?s1))) = Inr r2"
      and same: "r_name r2 = r_name r1" "r_enabled r2 = r_enabled r1"
        "r_priority r2 = r_priority r1" "r_trigger_count r2 = r_trigger_count r1"
      by blast
    have p2: "in_int64 (r_priority r2)" and k2: "in_int64 (r_trigger_count r2)"
      using imported(2,3) same by simp_all
    let ?s2 = "snd (add_rule r2 (?s1\<lparr>ticks := Suc (ticks ?s1)\<rparr>))"
    have res2: "add_rule_from_json d ?s1 = (Inr r2, ?s2)"
      using fd2 by (simp add: import_result add_rule_ok [OF p2 k2])
    have wf1': "wf_hub (?s1\<lparr>ticks := Suc (ticks ?s1)\<rparr>)"
      using wf1 by (simp add: wf_tick)
    have "length (filter (\<lambda>row. row_name row = r_name r2) (tbl_rules ?s2)) = 1"
      by (rule one [OF p2 k2])
    moreover have "filter (\<lambda>r. r_name r = r_name r2) (fst (get_active_rules ?s2))
        = (if r_enabled r2 then [r2] else [])"
      by (rule active_after_add [OF wf1' p2 k2])
    ultimately show ?thesis
      using res2 same by (simp add: s1)
  qed
  from stored refused import show ?thesis
    by blast
qed

theorem add_rule_replaces_by_name_witness:
  "wf_hub test_hub
   \<and> map row_name (tbl_rules test_hub) = [''temp_alert'']
   \<and> (r_priority temp_alert, r_trigger_count temp_alert) = (5, 0)
   \<and> fst (add_rule temp_alert test_hub) = Inr temp_alert
   \<and> length (filter (\<lambda>row. row_name row = ''temp_alert'') (tbl_rules (snd (add_rule temp_alert test_hub)))) = 1
   \<and> fst (get_rule ''temp_alert'' (snd (add_rule temp_alert test_hub))) = Some temp_alert
   \<and> filter (\<lambda>r. r_name r = ''temp_alert'') (fst (get_active_rules (snd (add_rule temp_alert test_hub))))
       = [temp_alert]
   \<and> \<not> isl (fst (add_rule_from_json minimal_doc test_hub))
   \<and> length (filter (\<lambda>row. row_name row = ''json_rule'')
        (tbl_rules (snd (add_rule_from_json minimal_doc (snd (add_rule_from_json minimal_doc test_hub)))))) = 1
   \<and> length (filter (\<lambda>r. r_name r = ''json_rule'')
        (fst (get_active_rules (snd (add_rule_from_json minimal_doc (snd (add_rule_from_json minimal_doc test_hub))))))) = 1"
proof -
  have names: "map row_name (tbl_rules test_hub) = [''temp_alert'']"
    by (simp add: test_hub_state)
  have name: "r_name temp_alert = ''temp_alert''" and en: "r_enabled temp_alert"
    and nums: "(r_priority temp_alert, r_trigger_count temp_alert) = (5, 0)"
    by (simp_all add: temp_alert_def)
  have fits: "in_int64 (r_priority temp_alert) \<and> in_int64 (r_trigger_count temp_alert)"
    by (simp add: temp_alert_def in_int64_def)
  obtain r1 where r1: "fst (add_rule_from_json minimal_doc test_hub) = Inr r1"
    "r_name r1 = ''json_rule''" "r_enabled r1"
    by (simp add: import_result from_dict_def minimal_doc_def mk_trigger_def add_rule_def
        in_int64_def)
  note claim = add_rule_replaces_by_name [of temp_alert test_hub minimal_doc]
  from claim wf_test_hub name en fits have direct:
    "fst (add_rule temp_alert test_hub) = Inr temp_alert"
    "length (filter (\<lambda>row. row_name row = ''temp_alert'') (tbl_rules (snd (add_rule temp_alert test_hub)))) = 1"
    "fst (get_rule ''temp_alert'' (snd (add_rule temp_alert test_hub))) = Some temp_alert"
    "filter (\<lambda>r. r_name r = ''temp_alert'') (fst (get_active_rules (snd (add_rule temp_alert test_hub))))
       = [temp_alert]"
    by simp_all
  from claim wf_test_hub r1(1) have
    "length (filter (\<lambda>row. row_name row = r_name r1)
        (tbl_rules (snd (add_rule_from_json minimal_doc (snd (add_rule_from_json minimal_doc test_hub)))))) = 1"
    "length (filter (\<lambda>r. r_name r = r_name r1)
        (fst (get_active_rules (snd (add_rule_from_json minimal_doc (snd (add_rule_from_json minimal_doc test_hub)))))))
      = (if r_enabled r1 then 1 else 0)"
    by blast+
  with wf_test_hub names nums direct r1 show ?thesis
    by simp
qed

text \<open>
  The claim as stated does not hold for every rule. A document with \<open>enabled\<close> false
  is imported twice without error and is stored once, and the active listing has no
  entry for it. And a rule with a priority one above the largest integer of the store
  is not stored at all: \<open>add_rule\<close> raises, no row has its name, \<open>get_rule\<close> finds
  nothing and the active listing is the one of before.
\<close>

theorem replace_by_name_counterexample:
  "\<not> isl (fst (add_rule_from_json quiet_doc (init_hub demo_clock demo_iso demo_sleep_range)))
   \<and> \<not> isl (fst (add_rule_from_json quiet_doc
               (snd (add_rule_from_json quiet_doc (init_hub demo_clock demo_iso demo_sleep_range)))))
   \<and> map row_name (tbl_rules (snd (add_rule_from_json quiet_doc
               (snd (add_rule_from_json quiet_doc (init_hub demo_clock demo_iso demo_sleep_range)))))) = [''quiet'']
   \<and> fst (get_active_rules (snd (add_rule_from_json quiet_doc
               (snd (add_rule_from_json quiet_doc (init_hub demo_clock demo_iso demo_sleep_range)))))) = []
   \<and> (r_name heavy_alert, r_priority heavy_alert, r_enabled heavy_alert)
       = (''heavy'', 9223372036854775808, True)
   \<and> add_rule heavy_alert test_hub = (Inl OverflowError, test_hub)
   \<and> filter (\<lambda>row. row_name row = ''heavy'') (tbl_rules (snd (add_rule heavy_alert test_hub))) = []
   \<and> fst (get_rule ''heavy'' (snd (add_rule heavy_alert test_hub))) = None
   \<and> fst (get_active_rules (snd (add_rule heavy_alert test_hub))) = [temp_alert]"
proof -
  have quiet: "\<not> isl (fst (add_rule_from_json quiet_doc (init_hub demo_clock demo_iso demo_sleep_range)))
   \<and> \<not> isl (fst (add_rule_from_json quiet_doc
               (snd (add_rule_from_json quiet_doc (init_hub demo_clock demo_iso demo_sleep_range)))))
   \<and> map row_name (tbl_rules (snd (add_rule_from_json quiet_doc
               (snd (add_rule_from_json quiet_doc (init_hub demo_clock demo_iso demo_sleep_range)))))) = [''quiet'']
   \<and> fst (get_active_rules (snd (add_rule_from_json quiet_doc
               (snd (add_rule_from_json quiet_doc (init_hub demo_clock demo_iso demo_sleep_range)))))) = []"
    by (simp add: import_result from_dict_def quiet_doc_def minimal_doc_def mk_trigger_def
        init_hub_def active_rules_eq add_rule_def in_int64_def hub_log_def utcnow_def)
  have heavy: "(r_name heavy_alert, r_priority heavy_alert, r_enabled heavy_alert)
       = (''heavy'', 9223372036854775808, True)"
    by (simp add: heavy_alert_def temp_alert_def)
  have refused: "add_rule heavy_alert test_hub = (Inl OverflowError, test_hub)"
    by (simp add: add_rule_def in_int64_def heavy_alert_def)
  have rest: "filter (\<lambda>row. row_name row = ''heavy'') (tbl_rules test_hub) = []"
    "fst (get_rule ''heavy'' test_hub) = None"
    "fst (get_active_rules test_hub) = [temp_alert]"
    by (simp_all add: get_rule_def active_rules_eq test_hub_state rule_of_row_def)
      (simp add: temp_alert_def)
  from quiet heavy refused rest show ?thesis
    by simp
qed

subsection \<open>Disabling and enabling\<close>

lemma toggle_twice:
  "map (\<lambda>r. if row_name r = n then r\<lparr>row_enabled := True\<rparr> else r)
     (map (\<lambda>r. if row_name r = n then r\<lparr>row_enabled := False\<rparr> else r) rows)
   = map (\<lambda>r. if row_name r = n then r\<lparr>row_enabled := True\<rparr> else r) rows"
  by (induction rows) simp_all

lemma filter_disabled_named:
  "filter (\<lambda>row. row_name row = n \<and> row_enabled row)
     (map (\<lambda>r. if row_name r = n then r\<lparr>row_enabled := False\<rparr> else r) rows) = []"
  by (induction rows) simp_all

lemma filter_enabled_named:
  "filter (\<lambda>row. row_name row = n \<and> row_enabled row)
     (map (\<lambda>r. if row_name r = n then r\<lparr>row_enabled := True\<rparr> else r) rows)
   = map (\<lambda>r. r\<lparr>row_enabled := True\<rparr>) (filter (\<lambda>row. row_name row = n) rows)"
  by (induction rows) simp_all

lemma filter_toggle_other:
  assumes "m \<noteq> n"
  shows "filter (\<lambda>row. row_name row = m \<and> row_enabled row)
     (map (\<lambda>r. if row_name r = n then r\<lparr>row_enabled := b\<rparr> else r) rows)
   = filter (\<lambda>row. row_name row = m \<and> row_enabled row) rows"
  using assms by (induction rows) auto

lemma enable_disable_rows:
  "tbl_rules (disable_rule n s)
     = map (\<lambda>r. if row_name r = n then r\<lparr>row_enabled := False\<rparr> else r) (tbl_rules s)"
  "tbl_rules (enable_rule n (disable_rule n s))
     = map (\<lambda>r. if row_name r = n then r\<lparr>row_enabled := True\<rparr> else r) (tbl_rules s)"
  by (simp_all add: enable_rule_def disable_rule_def toggle_twice)

text \<open>
  Claim C7. For a row of a well-formed store, disabling the rule of that name removes
  it from the active listing, and enabling it again puts it back, once, with the trigger
  count and the last-triggered time of the row. The round trip changes nothing but the
  enabled flag of that row and leaves the execution table alone; when the rule was enabled
  before, the listing has the same entry as before and the hub is the same state as
  before. Disabling does not change the entries of other names.
\<close>

theorem disable_enable_round_trip:
  assumes wf: "wf_hub s" and row: "row \<in> set (tbl_rules s)"
  shows "filter (\<lambda>r. r_name r = row_name row) (fst (get_active_rules (disable_rule (row_name row) s))) = []
    \<and> filter (\<lambda>r. r_name r = row_name row)
        (fst (get_active_rules (enable_rule (row_name row) (disable_rule (row_name row) s))))
       = [(rule_of_row row)\<lparr>r_enabled := True\<rparr>]
    \<and> r_trigger_count ((rule_of_row row)\<lparr>r_enabled := True\<rparr>) = row_trigger_count row
    \<and> r_last_triggered ((rule_of_row row)\<lparr>r_enabled := True\<rparr>) = row_last_triggered row
    \<and> tbl_rules (enable_rule (row_name row) (disable_rule (row_name row) s))
       = map (\<lambda>r. if row_name r = row_name row then r\<lparr>row_enabled := True\<rparr> else r) (tbl_rules s)
    \<and> tbl_executions (disable_rule (row_name row) s) = tbl_executions s
    \<and> tbl_executions (enable_rule (row_name row) (disable_rule (row_name row) s)) = tbl_executions s
    \<and> (row_enabled row \<longrightarrow>
         filter (\<lambda>r. r_name r = row_name row) (fst (get_active_rules s)) = [(rule_of_row row)\<lparr>r_enabled := True\<rparr>]
         \<and> enable_rule (row_name row) (disable_rule (row_name row) s) = s)
    \<and> (\<forall>m. m \<noteq> row_name row \<longrightarrow>
         filter (\<lambda>r. r_name r = m) (fst (get_active_rules (disable_rule (row_name row) s)))
         = filter (\<lambda>r. r_name r = m) (fst (get_active_rules s)))"
proof -
  let ?n = "row_name row"
  let ?off = "disable_rule ?n s"
  let ?on = "enable_rule ?n ?off"
  have wf_off: "wf_hub ?off" and wf_on: "wf_hub ?on"
    using wf by (simp_all add: wf_enable_disable)
  have only: "filter (\<lambda>r. row_name r = ?n) (tbl_rules s) = [row]"
    using wf row by (simp add: wf_hub_def distinct_names_filter)
  have gone: "filter (\<lambda>r. r_name r = ?n) (fst (get_active_rules ?off)) = []"
    by (simp add: active_named [OF wf_off] enable_disable_rows filter_disabled_named)
  have restored: "filter (\<lambda>r. r_name r = ?n) (fst (get_active_rules ?on)) = [(rule_of_row row)\<lparr>r_enabled := True\<rparr>]"
    by (simp add: active_named [OF wf_on] enable_disable_rows filter_enabled_named only rule_of_row_def)
  have counters: "r_trigger_count ((rule_of_row row)\<lparr>r_enabled := True\<rparr>) = row_trigger_count row"
    "r_last_triggered ((rule_of_row row)\<lparr>r_enabled := True\<rparr>) = row_last_triggered row"
    by (simp_all add: rule_of_row_def)
  have execs: "tbl_executions ?off = tbl_executions s" "tbl_executions ?on = tbl_executions s"
    by (simp_all add: enable_rule_def disable_rule_def)
  have before: "filter (\<lambda>r. r_name r = ?n) (fst (get_active_rules s)) = [(rule_of_row row)\<lparr>r_enabled := True\<rparr>]"
    and same: "?on = s" if is_on: "row_enabled row"
  proof -
    have "filter (\<lambda>r. row_name r = ?n \<and> row_enabled r) (tbl_rules s) = [row]"
    proof -
      have "filter (\<lambda>r. row_name r = ?n \<and> row_enabled r) (tbl_rules s)
          = filter row_enabled (filter (\<lambda>r. row_name r = ?n) (tbl_rules s))"
        by (simp add: conj_commute)
      then show ?thesis
        by (simp add: only is_on)
    qed
    then show "filter (\<lambda>r. r_name r = ?n) (fst (get_active_rules s)) = [(rule_of_row row)\<lparr>r_enabled := True\<rparr>]"
      by (simp add: active_named [OF wf])
    have uniq: "r = row" if "r \<in> set (tbl_rules s)" "row_name r = ?n" for r
    proof -
      have "r \<in> set (filter (\<lambda>r. row_name r = ?n) (tbl_rules s))"
        using that by simp
      then show ?thesis
        by (simp add: only)
    qed
    have fixed: "row\<lparr>row_enabled := True\<rparr> = row"
      using is_on by (cases row) simp
    have "(if row_name r = ?n then r\<lparr>row_enabled := True\<rparr> else r) = r"
      if mem: "r \<in> set (tbl_rules s)" for r
    proof (cases "row_name r = ?n")
      case True
      with mem have "r = row" by (rule uniq)
      with fixed True show ?thesis by simp
    next
      case False
      then show ?thesis by simp
    qed
    then have "map (\<lambda>r. if row_name r = ?n then r\<lparr>row_enabled := True\<rparr> else r) (tbl_rules s)
        = tbl_rules s"
      by (rule map_idI)
    then have "tbl_rules ?on = tbl_rules s"
      by (simp add: enable_disable_rows)
    then show "?on = s"
      by (simp add: enable_rule_def disable_rule_def)
  qed
  have others: "filter (\<lambda>r. r_name r = m) (fst (get_active_rules ?off))
         = filter (\<lambda>r. r_name r = m) (fst (get_active_rules s))" if "m \<noteq> ?n" for m
    using that by (simp add: active_named [OF wf_off] active_named [OF wf] enable_disable_rows
        filter_toggle_other)
  from gone restored counters enable_disable_rows(2) [of ?n s] execs before same others show ?thesis
    by blast
qed

theorem disable_enable_round_trip_witness:
  "wf_hub (snd (run_rule_engine (reading 40) None test_hub))
   \<and> map (\<lambda>r. (row_name r, row_enabled r, row_trigger_count r, row_last_triggered r))
        (tbl_rules (snd (run_rule_engine (reading 40) None test_hub)))
       = [(''temp_alert'', True, 1, Some (demo_iso 6000))]
   \<and> filter (\<lambda>r. r_name r = ''temp_alert'')
        (fst (get_active_rules (disable_rule ''temp_alert'' (snd (run_rule_engine (reading 40) None test_hub)))))
       = []
   \<and> map (\<lambda>r. (r_name r, r_enabled r, r_trigger_count r, r_last_triggered r))
        (filter (\<lambda>r. r_name r = ''temp_alert'')
          (fst (get_active_rules (enable_rule ''temp_alert''
             (disable_rule ''temp_alert'' (snd (run_rule_engine (reading 40) None test_hub)))))))
       = [(''temp_alert'', True, 1, Some (demo_iso 6000))]
   \<and> enable_rule ''temp_alert'' (disable_rule ''temp_alert'' (snd (run_rule_engine (reading 40) None test_hub)))
       = snd (run_rule_engine (reading 40) None test_hub)"
proof -
  define s1 where "s1 = snd (run_rule_engine (reading 40) None test_hub)"
  have wf1: "wf_hub s1"
    unfolding s1_def using wf_test_hub by (rule wf_run_rule_engine)
  have ok: "fst (evaluate_rule temp_alert (reading 40))"
    by (simp add: evaluate_rule_passed temp_alert_def reading_def evaluate_def resolve_path_def
        dict_get_def OP_MAP_def)
  have one: "length (filter row_enabled (tbl_rules test_hub)) = 1"
    by (simp add: test_hub_state)
  have name: "r_name temp_alert = ''temp_alert''"
    by (simp add: temp_alert_def)
  have rows1: "tbl_rules s1 = [\<lparr>row_name = ''temp_alert'', row_definition = temp_alert,
      row_enabled = True, row_priority = 5, row_created_at = ''2024-01-01T00:00:00'',
      row_last_triggered = Some (demo_iso 6000), row_trigger_count = 1\<rparr>]"
    unfolding s1_def
    by (simp add: hot_pass(1) [OF test_hub_selected(1) one refl ok] test_hub_state name
        sql_add_one_def demo_clock_def)
  let ?row = "\<lparr>row_name = ''temp_alert'', row_definition = temp_alert,
      row_enabled = True, row_priority = 5, row_created_at = ''2024-01-01T00:00:00'',
      row_last_triggered = Some (demo_iso 6000), row_trigger_count = 1\<rparr>"
  have mem: "?row \<in> set (tbl_rules s1)"
    by (simp add: rows1)
  from disable_enable_round_trip [OF wf1 mem]
  have "filter (\<lambda>r. r_name r = ''temp_alert'') (fst (get_active_rules (disable_rule ''temp_alert'' s1))) = []"
    and "filter (\<lambda>r. r_name r = ''temp_alert'')
          (fst (get_active_rules (enable_rule ''temp_alert'' (disable_rule ''temp_alert'' s1))))
        = [(rule_of_row ?row)\<lparr>r_enabled := True\<rparr>]"
    and "enable_rule ''temp_alert'' (disable_rule ''temp_alert'' s1) = s1"
    by simp_all
  with wf1 rows1 show ?thesis
    unfolding s1_def [symmetric] by (simp add: rule_of_row_def temp_alert_def)
qed

end
